theory Spec2Isabelle
  imports Main "HOL-Library.Stream"
begin

section \<open>Module constants and persistent storage (tetris-server.js, lines 5--228)\<close>

text \<open>
  JavaScript numbers that the game computes with are integers far below \<open>2^53\<close>
  (scores, levels, line counts, milliseconds), so they are modelled as \<^typ>\<open>int\<close>.
  An access to a property of \<open>undefined\<close> or \<open>null\<close> throws a \<open>TypeError\<close>;
  every such access of the source is a branch returning \<open>Inl TypeError\<close>.
  Arithmetic on \<open>undefined\<close> yields \<open>NaN\<close>, which has no integer value; the one place
  where the source can produce it returns \<open>Inl NotANumber\<close>.
\<close>

datatype error = TypeError | NotANumber

definition MAX_HIGHSCORE_ENTRIES :: nat where
  "MAX_HIGHSCORE_ENTRIES = 100"

definition MAX_PLAYER_HISTORY :: nat where
  "MAX_PLAYER_HISTORY = 5"

text \<open>The object built in \<open>updateHighScore\<close>; also an element of \<open>highScores\<close>.\<close>

record scoreEntry =
  playerId :: string
  playerName :: string
  score :: int
  level :: int
  lines :: int
  date :: string

text \<open>
  The value returned by \<open>getPlayerIdentity\<close>. Its field \<open>id\<close> is called \<open>ident\<close>
  here and its field \<open>name\<close> is called \<open>nick\<close>, because \<open>id\<close> is the identity
  function of HOL and \<open>name\<close> is also a field of the stored player object.
\<close>

record player =
  ident :: string
  nick :: string
  fingerprint :: string

text \<open>
  A value of \<open>playerData\<close>. The property \<open>scores\<close> may be missing from an object
  read from the JSON file, hence the option.
\<close>

record playerInfo =
  name :: string
  firstSeen :: string
  lastSeen :: string
  scores :: "scoreEntry list option"

text \<open>The two module-level variables \<open>highScores\<close> and \<open>playerData\<close>.\<close>

record store =
  highScores :: "scoreEntry list"
  playerData :: "string \<rightharpoonup> playerInfo"

text \<open>\<open>Array.prototype.findIndex\<close>: the first index whose element satisfies the
  predicate, \<open>-1\<close> when there is none.\<close>

fun findIndex :: "('a \<Rightarrow> bool) \<Rightarrow> 'a list \<Rightarrow> int" where
  "findIndex P [] = - 1"
| "findIndex P (x # xs) =
     (if P x then 0
      else (let i = findIndex P xs in if i < 0 then - 1 else i + 1))"

text \<open>
  \<open>highScores.sort((a, b) => b.score - a.score)\<close>. The sort of the language is stable
  and the comparator orders by descending score; \<^const>\<open>sort_key\<close> is the stable
  insertion sort of HOL, ascending in the key, so the key is the negated score.
\<close>

definition sortScores :: "scoreEntry list \<Rightarrow> scoreEntry list" where
  "sortScores hs = sort_key (\<lambda>e. - score e) hs"

text \<open>
  \<open>updateHighScore(player, score, level, lines)\<close>, lines 166--201. The argument
  \<open>now\<close> is the value of \<open>new Date().toISOString()\<close>. The first statement that touches
  \<open>playerData[player.id]\<close> throws when the player object is missing; nothing has been
  mutated at that point. The writes to the two files are not modelled. The result is the
  returned rank together with the new store.
\<close>

definition updateHighScore ::
  "string \<Rightarrow> player \<Rightarrow> int \<Rightarrow> int \<Rightarrow> int \<Rightarrow> store \<Rightarrow> error + (int \<times> store)" where
  "updateHighScore now p sc lv ln st =
     (let existingIndex = findIndex (\<lambda>entry. playerId entry = ident p) (highScores st);
          newEntry = \<lparr>playerId = ident p, playerName = nick p, score = sc,
                      level = lv, lines = ln, date = now\<rparr>
      in case playerData st (ident p) of
           None \<Rightarrow> Inl TypeError
         | Some info \<Rightarrow>
             (let history = newEntry # (case scores info of None \<Rightarrow> [] | Some h \<Rightarrow> h);
                  history' = (if length history > MAX_PLAYER_HISTORY
                              then take MAX_PLAYER_HISTORY history else history);
                  pd = (playerData st)(ident p \<mapsto> info\<lparr>scores := Some history'\<rparr>);
                  hs = (if existingIndex \<ge> 0
                        then (if sc > score (highScores st ! nat existingIndex)
                              then (highScores st)[nat existingIndex := newEntry]
                              else highScores st)
                        else highScores st @ [newEntry]);
                  hs' = take (min 50 MAX_HIGHSCORE_ENTRIES) (sortScores hs)
              in Inr (findIndex (\<lambda>entry. playerId entry = ident p) hs' + 1,
                      st\<lparr>highScores := hs', playerData := pd\<rparr>)))"

text \<open>\<open>getPlayerBestScore(playerId)\<close>, lines 203--206.\<close>

definition getPlayerBestScore :: "string \<Rightarrow> store \<Rightarrow> int" where
  "getPlayerBestScore pid st =
     (case find (\<lambda>entry. playerId entry = pid) (highScores st) of
        None \<Rightarrow> 0 | Some playerScore \<Rightarrow> score playerScore)"

text \<open>\<open>deletePlayerAccount(playerId)\<close>, lines 208--215.\<close>

definition deletePlayerAccount :: "string \<Rightarrow> store \<Rightarrow> store" where
  "deletePlayerAccount pid st =
     st\<lparr>highScores := filter (\<lambda>e. playerId e \<noteq> pid) (highScores st),
        playerData := (playerData st)(pid := None)\<rparr>"

text \<open>
  A game-over finalization as an event on the store: the arguments of one call of
  \<open>updateHighScore\<close>. A call that throws leaves the store as it was (the process
  installs an \<open>uncaughtException\<close> handler and continues).
\<close>

record finalization =
  atDate :: string
  byPlayer :: player
  finalScore :: int
  finalLevel :: int
  finalLines :: int

definition finalize :: "finalization \<Rightarrow> store \<Rightarrow> store" where
  "finalize c st =
     (case updateHighScore (atDate c) (byPlayer c) (finalScore c) (finalLevel c) (finalLines c) st of
        Inl e \<Rightarrow> st
      | Inr (rank, st') \<Rightarrow> st')"

fun finalizeAll :: "finalization list \<Rightarrow> store \<Rightarrow> store" where
  "finalizeAll [] st = st"
| "finalizeAll (c # cs) st = finalizeAll cs (finalize c st)"

text \<open>
  The leaderboard invariant: at most one entry for each player, scores in descending
  order, and no more entries than \<open>updateHighScore\<close> keeps.
\<close>

definition leaderboardInv :: "scoreEntry list \<Rightarrow> bool" where
  "leaderboardInv hs \<longleftrightarrow>
     distinct (map playerId hs) \<and> sorted (map (\<lambda>e. - score e) hs) \<and> length hs \<le> 50"

text \<open>The list that \<open>updateHighScore\<close> sorts: the leaderboard after the replacement or
  the \<open>push\<close>, before \<open>sort\<close> and \<open>slice\<close>.\<close>

definition upserted :: "player \<Rightarrow> int \<Rightarrow> scoreEntry \<Rightarrow> scoreEntry list \<Rightarrow> scoreEntry list" where
  "upserted p sc newEntry hs =
     (let existingIndex = findIndex (\<lambda>entry. playerId entry = ident p) hs
      in if existingIndex \<ge> 0
         then (if sc > score (hs ! nat existingIndex) then hs[nat existingIndex := newEntry] else hs)
         else hs @ [newEntry])"

section \<open>The pieces, the screens and the game object (lines 24--47 and 234--257)\<close>

text \<open>The keys of \<open>PIECES\<close>, in the order of the object literal.\<close>

datatype tetromino = PieceI | PieceO | PieceT | PieceS | PieceZ | PieceJ | PieceL

text \<open>A shape is a matrix of the numbers 0 and 1; a cell is occupied when its entry is
  truthy, that is, not 0.\<close>

type_synonym shape = "nat list list"

text \<open>\<open>PIECES[type].shapes\<close>.\<close>

fun shapes :: "tetromino \<Rightarrow> shape list" where
  "shapes PieceI = [[[1,1,1,1]], [[1],[1],[1],[1]]]"
| "shapes PieceO = [[[1,1],[1,1]]]"
| "shapes PieceT = [[[0,1,0],[1,1,1]], [[1,0],[1,1],[1,0]], [[1,1,1],[0,1,0]], [[0,1],[1,1],[0,1]]]"
| "shapes PieceS = [[[0,1,1],[1,1,0]], [[1,0],[1,1],[0,1]]]"
| "shapes PieceZ = [[[1,1,0],[0,1,1]], [[0,1],[1,1],[1,0]]]"
| "shapes PieceJ = [[[1,0,0],[1,1,1]], [[1,1],[1,0],[1,0]], [[1,1,1],[0,0,1]], [[0,1],[0,1],[1,1]]]"
| "shapes PieceL = [[[0,0,1],[1,1,1]], [[1,0],[1,0],[1,1]], [[1,1,1],[1,0,0]], [[1,1],[0,1],[0,1]]]"

text \<open>\<open>STATES\<close>.\<close>

datatype screen =
  WELCOME | PLAYING | PAUSED | GAME_OVER | HIGH_SCORES | ACCOUNT_MENU | ACCOUNT_EXPORT | ACCOUNT_DELETE

text \<open>
  A value found in a board row: \<open>null\<close>, the key of a piece, or \<open>undefined\<close>, which is
  what a read beyond the end of a row yields and what the holes of a row extended by an
  assignment beyond its end read as.
\<close>

datatype cell = Null | Tag tetromino | Undefined

type_synonym grid = "cell list list"

text \<open>The fields of a \<open>TetrisGame\<close> besides \<open>stream\<close>; \<open>null\<close> is \<open>None\<close>.\<close>

record game =
  player :: player
  state :: screen
  board :: grid
  currentPiece :: "shape option"
  currentType :: "tetromino option"
  currentRotation :: nat
  currentX :: int
  currentY :: int
  nextType :: "tetromino option"
  score :: int
  level :: int
  lines :: int
  dropTime :: int
  lastDrop :: int
  playerBest :: int

text \<open>
  What a method of the game can read and change: the object itself, the module's store,
  the outcomes of the future calls of \<open>Math.random\<close> in \<open>spawnNextPiece\<close> (each already
  mapped to the key it selects), the values that \<open>Date.now()\<close> and
  \<open>new Date().toISOString()\<close> return, and whether \<open>stream.end()\<close> has been called.
  Rendering writes to the stream only and is left out.
\<close>

record world =
  this :: game
  globals :: store
  random :: "tetromino stream"
  clock :: int
  clockISO :: string
  streamEnded :: bool

text \<open>
  A method that changes the game or the store and then throws leaves the changes behind:
  the process handles \<open>uncaughtException\<close> by logging and goes on (lines 1103--1106).
  Such a method returns \<open>Inl (e, w)\<close>, where \<open>w\<close> is the world at the moment of the
  throw, or \<open>Inr w\<close> when it returns. With \<open>NotANumber\<close> nothing is thrown; \<open>w\<close> is
  then the world before the score is computed.
\<close>

type_synonym outcome = "error \<times> world + world"

text \<open>\<open>Array(20).fill().map(() => Array(10).fill(null))\<close>.\<close>

definition emptyRow :: "cell list" where
  "emptyRow = replicate 10 Null"

definition emptyBoard :: grid where
  "emptyBoard = replicate 20 emptyRow"

text \<open>The constructor, lines 235--257.\<close>

definition TetrisGame :: "player \<Rightarrow> store \<Rightarrow> tetromino stream \<Rightarrow> int \<Rightarrow> string \<Rightarrow> world" where
  "TetrisGame p st rnd t isoDate =
     \<lparr>this = \<lparr>player = p, state = WELCOME, board = emptyBoard, currentPiece = None,
              currentType = None, currentRotation = 0, currentX = 0, currentY = 0,
              nextType = None, score = 0, level = 1, lines = 0, dropTime = 1000,
              lastDrop = t, playerBest = getPlayerBestScore (ident p) st\<rparr>,
      globals = st, random = rnd, clock = t, clockISO = isoDate, streamEnded = False\<rparr>"

definition setState :: "screen \<Rightarrow> world \<Rightarrow> world" where
  "setState newState w = w\<lparr>this := (this w)\<lparr>state := newState\<rparr>\<rparr>"

section \<open>Collision, movement and rotation (lines 490--525)\<close>

text \<open>
  The read \<open>this.board[newY][newX]\<close>: a \<open>TypeError\<close> when the board has no row
  \<open>newY\<close>, \<open>undefined\<close> when the row has no index \<open>newX\<close>.
\<close>

definition cellAt :: "grid \<Rightarrow> int \<Rightarrow> int \<Rightarrow> error + cell" where
  "cellAt b y x =
     (if 0 \<le> y \<and> nat y < length b
      then (if 0 \<le> x \<and> nat x < length (b ! nat y) then Inr (b ! nat y ! nat x) else Inr Undefined)
      else Inl TypeError)"

fun truthy :: "cell \<Rightarrow> bool" where
  "truthy (Tag t) = True"
| "truthy Null = False"
| "truthy Undefined = False"

text \<open>
  The inner loop of \<open>checkCollision\<close> over the rest of one shape row: \<open>newX\<close> and
  \<open>newY\<close> are the board coordinates of the first remaining cell. \<open>Inr True\<close> is the
  \<open>return true\<close> of the source, \<open>Inr False\<close> the end of the row.
\<close>

fun checkRow :: "grid \<Rightarrow> int \<Rightarrow> int \<Rightarrow> nat list \<Rightarrow> error + bool" where
  "checkRow b newX newY [] = Inr False"
| "checkRow b newX newY (c # cs) =
     (if c \<noteq> 0 then
        (if newX < 0 \<or> newX \<ge> 10 \<or> newY \<ge> 20 then Inr True
         else if newY \<ge> 0 then
           (case cellAt b newY newX of
              Inl e \<Rightarrow> Inl e
            | Inr v \<Rightarrow> if truthy v then Inr True else checkRow b (newX + 1) newY cs)
         else checkRow b (newX + 1) newY cs)
      else checkRow b (newX + 1) newY cs)"

text \<open>The outer loop over the remaining shape rows; \<open>y\<close> is the board row of the first
  of them.\<close>

fun checkRows :: "grid \<Rightarrow> int \<Rightarrow> int \<Rightarrow> shape \<Rightarrow> error + bool" where
  "checkRows b x y [] = Inr False"
| "checkRows b x y (row # rows) =
     (case checkRow b x y row of
        Inl e \<Rightarrow> Inl e
      | Inr hit \<Rightarrow> if hit then Inr True else checkRows b x (y + 1) rows)"

text \<open>\<open>checkCollision(x, y, piece)\<close>; with \<open>piece = null\<close> the read of \<open>piece.length\<close>
  throws.\<close>

definition checkCollision :: "game \<Rightarrow> int \<Rightarrow> int \<Rightarrow> shape option \<Rightarrow> error + bool" where
  "checkCollision g x y piece =
     (case piece of None \<Rightarrow> Inl TypeError | Some p \<Rightarrow> checkRows (board g) x y p)"

text \<open>\<open>movePiece(dx, dy)\<close>: the returned boolean and the game.\<close>

definition movePiece :: "int \<Rightarrow> int \<Rightarrow> game \<Rightarrow> error + (bool \<times> game)" where
  "movePiece dx dy g =
     (case checkCollision g (currentX g + dx) (currentY g + dy) (currentPiece g) of
        Inl e \<Rightarrow> Inl e
      | Inr hit \<Rightarrow>
          if \<not> hit
          then Inr (True, g\<lparr>currentX := currentX g + dx, currentY := currentY g + dy\<rparr>)
          else Inr (False, g))"

text \<open>\<open>rotatePiece()\<close>; \<open>PIECES[null]\<close> is \<open>undefined\<close> and its \<open>shapes\<close> throws.\<close>

definition rotatePiece :: "game \<Rightarrow> error + (bool \<times> game)" where
  "rotatePiece g =
     (case currentType g of
        None \<Rightarrow> Inl TypeError
      | Some t \<Rightarrow>
          (let newRotation = (currentRotation g + 1) mod length (shapes t);
               newPiece = shapes t ! newRotation
           in case checkCollision g (currentX g) (currentY g) (Some newPiece) of
                Inl e \<Rightarrow> Inl e
              | Inr hit \<Rightarrow>
                  if \<not> hit
                  then Inr (True, g\<lparr>currentRotation := newRotation, currentPiece := Some newPiece\<rparr>)
                  else Inr (False, g)))"

section \<open>Placement and line clearing (lines 536--571)\<close>

text \<open>
  The assignment \<open>this.board[boardY][boardX] = v\<close> for \<open>boardY \<ge> 0\<close>: a \<open>TypeError\<close>
  when there is no row \<open>boardY\<close>; a negative \<open>boardX\<close> creates a property of the row
  object and leaves its elements alone; an index beyond the end extends the row, the
  skipped indices becoming holes.
\<close>

definition setCell :: "grid \<Rightarrow> int \<Rightarrow> int \<Rightarrow> cell \<Rightarrow> error + grid" where
  "setCell b y x v =
     (if 0 \<le> y \<and> nat y < length b
      then (let row = b ! nat y
            in if x < 0 then Inr b
               else if nat x < length row then Inr (b[nat y := row[nat x := v]])
               else Inr (b[nat y := row @ replicate (nat x - length row) Undefined @ [v]]))
      else Inl TypeError)"

text \<open>The value of \<open>this.currentType\<close> as a cell.\<close>

fun typeCell :: "tetromino option \<Rightarrow> cell" where
  "typeCell None = Null"
| "typeCell (Some t) = Tag t"

text \<open>The inner loop of \<open>placePiece\<close> over the rest of one shape row. When an
  assignment throws, the cells written before it stay written: the error comes with the
  board at that moment.\<close>

fun placeRow :: "grid \<Rightarrow> cell \<Rightarrow> int \<Rightarrow> int \<Rightarrow> nat list \<Rightarrow> error \<times> grid + grid" where
  "placeRow b v boardX boardY [] = Inr b"
| "placeRow b v boardX boardY (c # cs) =
     (if c \<noteq> 0 then
        (if boardY \<ge> 0 then
           (case setCell b boardY boardX v of
              Inl e \<Rightarrow> Inl (e, b)
            | Inr b' \<Rightarrow> placeRow b' v (boardX + 1) boardY cs)
         else placeRow b v (boardX + 1) boardY cs)
      else placeRow b v (boardX + 1) boardY cs)"

text \<open>The outer loop of \<open>placePiece\<close> over the remaining shape rows.\<close>

fun placeRows :: "grid \<Rightarrow> cell \<Rightarrow> int \<Rightarrow> int \<Rightarrow> shape \<Rightarrow> error \<times> grid + grid" where
  "placeRows b v x y [] = Inr b"
| "placeRows b v x y (row # rows) =
     (case placeRow b v x y row of
        Inl thrown \<Rightarrow> Inl thrown
      | Inr b' \<Rightarrow> placeRows b' v x (y + 1) rows)"

text \<open>\<open>this.board[y].every(cell => cell !== null)\<close>; \<open>every\<close> skips holes, and
  \<open>undefined !== null\<close> holds, so only \<open>null\<close> makes it fail.\<close>

definition rowFull :: "cell list \<Rightarrow> bool" where
  "rowFull row \<longleftrightarrow> (\<forall>c\<in>set row. c \<noteq> Null)"

text \<open>\<open>this.board.splice(y, 1); this.board.unshift(Array(10).fill(null))\<close>.\<close>

definition removeRow :: "nat \<Rightarrow> grid \<Rightarrow> grid" where
  "removeRow y b = emptyRow # (take y b @ drop (Suc y) b)"

lemma removeRow_fewer_full:
  assumes "y < length b" and "rowFull (b ! y)"
  shows "length (filter rowFull (removeRow y b)) < length (filter rowFull b)"
proof -
  have "b = take y b @ b ! y # drop (Suc y) b"
    using assms(1) by (rule id_take_nth_drop)
  then have "length (filter rowFull b)
      = length (filter rowFull (take y b)) + 1 + length (filter rowFull (drop (Suc y) b))"
    using assms(2) by (metis (no_types) add.assoc filter.simps(2) filter_append length_Cons
        length_append plus_1_eq_Suc)
  moreover have "\<not> rowFull emptyRow"
    by (simp add: rowFull_def emptyRow_def)
  ultimately show ?thesis
    by (simp add: removeRow_def)
qed

text \<open>
  The loop \<open>for (let y = 19; y >= 0; y--)\<close> of \<open>clearLines\<close>. The first argument is
  \<open>y + 1\<close>, so that 0 stands for the exit value \<open>y = -1\<close>; after a removal the \<open>y++\<close>
  of the body and the \<open>y--\<close> of the loop leave \<open>y\<close> as it is. \<open>this.board[y]\<close> is
  \<open>undefined\<close> when the board has no row \<open>y\<close>, and calling \<open>every\<close> on it throws. The
  number of rows never changes and \<open>y\<close> never grows, so this can only happen in the first
  iteration, before any row is removed.
\<close>

function clearLoop :: "nat \<Rightarrow> grid \<Rightarrow> nat \<Rightarrow> error + (grid \<times> nat)" where
  "clearLoop 0 b linesCleared = Inr (b, linesCleared)"
| "clearLoop (Suc y) b linesCleared =
     (if y \<ge> length b then Inl TypeError
      else if rowFull (b ! y) then clearLoop (Suc y) (removeRow y b) (linesCleared + 1)
      else clearLoop y b linesCleared)"
  by pat_completeness auto
termination
  by (relation "measures [\<lambda>(k, b, n). length (filter rowFull b), \<lambda>(k, b, n). k]")
     (auto simp: removeRow_fewer_full)

text \<open>\<open>scoreValues[linesCleared]\<close>; beyond the end of the array it is \<open>undefined\<close>, and
  the product with the level is \<open>NaN\<close>.\<close>

definition scoreValues :: "int list" where
  "scoreValues = [0, 100, 300, 500, 800]"

text \<open>\<open>clearLines()\<close>.\<close>

definition clearLines :: "game \<Rightarrow> error + game" where
  "clearLines g =
     (case clearLoop 20 (board g) 0 of
        Inl e \<Rightarrow> Inl e
      | Inr (b, linesCleared) \<Rightarrow>
          (let g1 = g\<lparr>board := b\<rparr>
           in if linesCleared > 0 then
                (if linesCleared < length scoreValues then
                   (let lines' = lines g1 + int linesCleared;
                        score' = score g1 + scoreValues ! linesCleared * level g1;
                        level' = lines' div 10 + 1;
                        dropTime' = max 100 (1000 - (level' - 1) * 100)
                    in Inr (g1\<lparr>lines := lines', score := score', level := level',
                               dropTime := dropTime'\<rparr>))
                 else Inl NotANumber)
              else Inr g1))"

section \<open>Spawning, locking and dropping (lines 470--488 and 527--551)\<close>

text \<open>\<open>spawnNextPiece()\<close>: the next outcome of the random choice among the seven keys.\<close>

definition spawnNextPiece :: "world \<Rightarrow> world" where
  "spawnNextPiece w = w\<lparr>this := (this w)\<lparr>nextType := Some (shd (random w))\<rparr>,
                          random := stl (random w)\<rparr>"

text \<open>
  \<open>spawnPiece()\<close>. Every list of \<open>shapes\<close> and every shape has a first element, so
  the two reads at index 0 are in range. On a collision the game is finalized with
  \<open>updateHighScore\<close> and the screen becomes \<open>GAME_OVER\<close>. When \<open>updateHighScore\<close> throws,
  the new piece has been set and the screen has not changed.
\<close>

definition spawnPiece :: "world \<Rightarrow> outcome" where
  "spawnPiece w0 =
     (let w1 = spawnNextPiece (w0\<lparr>this := (this w0)\<lparr>currentType := nextType (this w0)\<rparr>\<rparr>);
          w2 = w1\<lparr>this := (this w1)\<lparr>currentRotation := 0\<rparr>\<rparr>
      in case currentType (this w2) of
           None \<Rightarrow> Inl (TypeError, w2)
         | Some t \<Rightarrow>
             (let piece = shapes t ! 0;
                  g = (this w2)\<lparr>currentPiece := Some piece,
                                currentX := (10 - int (length (piece ! 0))) div 2,
                                currentY := 0\<rparr>;
                  w3 = w2\<lparr>this := g\<rparr>
              in case checkCollision g (currentX g) (currentY g) (currentPiece g) of
                   Inl e \<Rightarrow> Inl (e, w3)
                 | Inr hit \<Rightarrow>
                     if hit then
                       (case updateHighScore (clockISO w3) (player g) (score g) (level g) (lines g)
                               (globals w3) of
                          Inl e \<Rightarrow> Inl (e, w3)
                        | Inr (rank, st') \<Rightarrow> Inr (setState GAME_OVER (w3\<lparr>globals := st'\<rparr>)))
                     else Inr w3))"

text \<open>
  The two nested loops of \<open>placePiece\<close>, lines 537--547: the board after the cells of
  the piece are written. With \<open>currentPiece = null\<close> the read of its \<open>length\<close> throws
  before anything is written.
\<close>

definition writePiece :: "game \<Rightarrow> error \<times> grid + grid" where
  "writePiece g =
     (case currentPiece g of
        None \<Rightarrow> Inl (TypeError, board g)
      | Some piece \<Rightarrow>
          placeRows (board g) (typeCell (currentType g)) (currentX g) (currentY g) piece)"

text \<open>
  \<open>placePiece()\<close>: write the cells, clear the lines, spawn the next piece. A throw
  while writing leaves the cells written so far; \<open>clearLines\<close> can only throw before it
  has changed anything.
\<close>

definition placePiece :: "world \<Rightarrow> outcome" where
  "placePiece w =
     (let g = this w
      in case writePiece g of
           Inl (e, b) \<Rightarrow> Inl (e, w\<lparr>this := g\<lparr>board := b\<rparr>\<rparr>)
         | Inr b \<Rightarrow>
             (case clearLines (g\<lparr>board := b\<rparr>) of
                Inl e \<Rightarrow> Inl (e, w\<lparr>this := g\<lparr>board := b\<rparr>\<rparr>)
              | Inr g' \<Rightarrow> spawnPiece (w\<lparr>this := g'\<rparr>)))"

text \<open>
  The loop \<open>while (this.movePiece(0, 1)) dropped++\<close> of \<open>hardDrop\<close>. Nothing in its
  text bounds the number of iterations, so it is a partial function: \<open>None\<close> stands for
  a loop that does not end. \<open>movePiece\<close> throws before it changes the game, so an error
  comes with the game of that iteration.
\<close>

partial_function (option) hardDropLoop ::
  "game \<Rightarrow> int \<Rightarrow> (error \<times> game + int \<times> game) option" where
  "hardDropLoop g dropped =
     (case movePiece 0 1 g of
        Inl e \<Rightarrow> Some (Inl (e, g))
      | Inr r \<Rightarrow> if fst r then hardDropLoop (snd r) (dropped + 1) else Some (Inr (dropped, snd r)))"

text \<open>\<open>hardDrop()\<close>.\<close>

definition hardDrop :: "world \<Rightarrow> outcome option" where
  "hardDrop w =
     (case hardDropLoop (this w) 0 of
        None \<Rightarrow> None
      | Some (Inl (e, g)) \<Rightarrow> Some (Inl (e, w\<lparr>this := g\<rparr>))
      | Some (Inr (dropped, g)) \<Rightarrow>
          Some (placePiece (w\<lparr>this := g\<lparr>score := score g + dropped * 2\<rparr>\<rparr>)))"

section \<open>Starting a game, the gravity timer and the input handlers (lines 282--468)\<close>

text \<open>
  One run of the function \<open>loop\<close> of \<open>startGameLoop\<close>, lines 450--466, without the
  rescheduling and the rendering: outside \<open>PLAYING\<close> it does nothing; when more than
  \<open>dropTime\<close> milliseconds have passed it moves the piece down one row, or places it when
  the move fails.
\<close>

definition gameLoop :: "world \<Rightarrow> outcome" where
  "gameLoop w =
     (if state (this w) \<noteq> PLAYING then Inr w
      else if clock w - lastDrop (this w) > dropTime (this w) then
        (case movePiece 0 1 (this w) of
           Inl e \<Rightarrow> Inl (e, w)
         | Inr (moved, g) \<Rightarrow>
             (case (if \<not> moved then placePiece (w\<lparr>this := g\<rparr>) else Inr (w\<lparr>this := g\<rparr>)) of
                Inl thrown \<Rightarrow> Inl thrown
              | Inr w' \<Rightarrow> Inr (w'\<lparr>this := (this w')\<lparr>lastDrop := clock w\<rparr>\<rparr>)))
      else Inr w)"

text \<open>
  \<open>startGameLoop()\<close> defines \<open>loop\<close> and calls it once; every later run is started
  by a timer.
\<close>

definition startGameLoop :: "world \<Rightarrow> outcome" where
  "startGameLoop w = gameLoop w"

text \<open>\<open>startGame()\<close>; \<open>restart()\<close> is the same call.\<close>

definition startGame :: "world \<Rightarrow> outcome" where
  "startGame w =
     (let g = (this w)\<lparr>board := emptyBoard, score := 0, level := 1, lines := 0,
                       dropTime := 1000, lastDrop := clock w\<rparr>
      in case spawnPiece (spawnNextPiece (w\<lparr>this := g\<rparr>)) of
           Inl thrown \<Rightarrow> Inl thrown
         | Inr w' \<Rightarrow> startGameLoop (setState PLAYING w'))"

definition restart :: "world \<Rightarrow> outcome" where
  "restart w = startGame w"

text \<open>The lower-cased escape sequence of an arrow key: \<open>ESC [\<close> and a letter.\<close>

definition arrow :: "char \<Rightarrow> string" where
  "arrow c = [CHR 0x1B, CHR ''['', c]"

text \<open>A move or rotation changes the game only, and throws before it changes anything;
  its boolean result is dropped.\<close>

definition discardResult :: "world \<Rightarrow> error + (bool \<times> game) \<Rightarrow> outcome" where
  "discardResult w r = (case r of Inl e \<Rightarrow> Inl (e, w) | Inr (ok, g) \<Rightarrow> Inr (w\<lparr>this := g\<rparr>))"

text \<open>\<open>handleWelcomeInput(key)\<close>.\<close>

definition handleWelcomeInput :: "string \<Rightarrow> world \<Rightarrow> outcome" where
  "handleWelcomeInput key w =
     (if key = ''h'' then Inr (setState HIGH_SCORES w)
      else if key = ''a'' then Inr (setState ACCOUNT_MENU w)
      else startGame w)"

text \<open>The \<open>case 's'\<close> branch of \<open>handleGameInput\<close>, lines 347--354.\<close>

definition softDrop :: "world \<Rightarrow> outcome" where
  "softDrop w =
     (case movePiece 0 1 (this w) of
        Inl e \<Rightarrow> Inl (e, w)
      | Inr (moved, g) \<Rightarrow>
          if moved then Inr (w\<lparr>this := g\<lparr>score := score g + 1\<rparr>\<rparr>)
          else placePiece (w\<lparr>this := g\<rparr>))"

text \<open>\<open>handleGameInput(key)\<close>; \<open>None\<close> only when the loop of \<open>hardDrop\<close> does not end.\<close>

definition handleGameInput :: "string \<Rightarrow> world \<Rightarrow> outcome option" where
  "handleGameInput key w =
     (if key = ''a'' \<or> key = arrow (CHR ''d'') then Some (discardResult w (movePiece (- 1) 0 (this w)))
      else if key = ''d'' \<or> key = arrow (CHR ''c'') then Some (discardResult w (movePiece 1 0 (this w)))
      else if key = ''s'' \<or> key = arrow (CHR ''b'') then Some (softDrop w)
      else if key = ''w'' \<or> key = arrow (CHR ''a'') then Some (discardResult w (rotatePiece (this w)))
      else if key = '' '' then hardDrop w
      else if key = ''p'' then Some (Inr (setState PAUSED w))
      else if key = ''r'' then Some (restart w)
      else if key = ''h'' then Some (Inr (setState HIGH_SCORES w))
      else Some (Inr w))"

text \<open>\<open>handlePausedInput(key)\<close>.\<close>

definition handlePausedInput :: "string \<Rightarrow> world \<Rightarrow> world" where
  "handlePausedInput key w = (if key = ''p'' then setState PLAYING w else w)"

text \<open>\<open>handleGameOverInput(key)\<close>.\<close>

definition handleGameOverInput :: "string \<Rightarrow> world \<Rightarrow> outcome" where
  "handleGameOverInput key w =
     (if key = ''r'' then restart w
      else if key = ''h'' then Inr (setState HIGH_SCORES w)
      else Inr (setState WELCOME w))"

text \<open>\<open>handleHighScoresInput(key)\<close>, lines 395--401: the test reads \<open>this.state\<close>.\<close>

definition handleHighScoresInput :: "string \<Rightarrow> world \<Rightarrow> world" where
  "handleHighScoresInput key w =
     (if state (this w) = PLAYING \<or> state (this w) = PAUSED
      then setState PLAYING w
      else setState WELCOME w)"

text \<open>\<open>handleAccountMenuInput(key)\<close>.\<close>

definition handleAccountMenuInput :: "string \<Rightarrow> world \<Rightarrow> world" where
  "handleAccountMenuInput key w =
     (if key = ''e'' then setState ACCOUNT_EXPORT w
      else if key = ''d'' then setState ACCOUNT_DELETE w
      else setState WELCOME w)"

text \<open>\<open>handleAccountExportInput(key)\<close>.\<close>

definition handleAccountExportInput :: "string \<Rightarrow> world \<Rightarrow> world" where
  "handleAccountExportInput key w = setState WELCOME w"

text \<open>\<open>handleAccountDeleteInput(key)\<close>; the stream is ended three seconds later by a
  timer, which is not part of this step.\<close>

definition handleAccountDeleteInput :: "string \<Rightarrow> world \<Rightarrow> world" where
  "handleAccountDeleteInput key w =
     (if key = ''y'' then w\<lparr>globals := deletePlayerAccount (ident (player (this w))) (globals w)\<rparr>
      else setState WELCOME w)"

text \<open>
  The \<open>data\<close> handler installed by \<open>setupInput\<close>, lines 283--320, applied to the
  lower-cased text of the received bytes.
\<close>

definition onData :: "string \<Rightarrow> world \<Rightarrow> outcome option" where
  "onData key w =
     (if key = ''q'' \<or> key = [CHR 0x03] then Some (Inr (w\<lparr>streamEnded := True\<rparr>))
      else case state (this w) of
             WELCOME \<Rightarrow> Some (handleWelcomeInput key w)
           | PLAYING \<Rightarrow> handleGameInput key w
           | PAUSED \<Rightarrow> Some (Inr (handlePausedInput key w))
           | GAME_OVER \<Rightarrow> Some (handleGameOverInput key w)
           | HIGH_SCORES \<Rightarrow> Some (Inr (handleHighScoresInput key w))
           | ACCOUNT_MENU \<Rightarrow> Some (Inr (handleAccountMenuInput key w))
           | ACCOUNT_EXPORT \<Rightarrow> Some (Inr (handleAccountExportInput key w))
           | ACCOUNT_DELETE \<Rightarrow> Some (Inr (handleAccountDeleteInput key w)))"

section \<open>Well-formed boards\<close>

text \<open>A board of 20 rows of 10 cells, each \<open>null\<close> or the key of a piece.\<close>

definition boardOK :: "grid \<Rightarrow> bool" where
  "boardOK b \<longleftrightarrow>
     length b = 20 \<and> (\<forall>row\<in>set b. length row = 10 \<and> (\<forall>c\<in>set row. c \<noteq> Undefined))"

text \<open>
  The collision test in the words of the specification: some occupied cell of the shape
  maps to a column outside \<open>[0,10)\<close>, or to a row \<open>\<ge> 20\<close>, or to a row \<open>\<ge> 0\<close> whose board
  cell is not empty.
\<close>

definition hits :: "grid \<Rightarrow> int \<Rightarrow> int \<Rightarrow> shape \<Rightarrow> bool" where
  "hits b x y piece \<longleftrightarrow>
     (\<exists>py<length piece. \<exists>px<length (piece ! py).
        piece ! py ! px \<noteq> 0 \<and>
        (x + int px < 0 \<or> x + int px \<ge> 10 \<or> y + int py \<ge> 20 \<or>
         (y + int py \<ge> 0 \<and> b ! nat (y + int py) ! nat (x + int px) \<noteq> Null)))"

text \<open>The same for the cells of one shape row that maps to the board row \<open>newY\<close>.\<close>

definition hitsRow :: "grid \<Rightarrow> int \<Rightarrow> int \<Rightarrow> nat list \<Rightarrow> bool" where
  "hitsRow b x newY cs \<longleftrightarrow>
     (\<exists>px<length cs. cs ! px \<noteq> 0 \<and>
        (x + int px < 0 \<or> x + int px \<ge> 10 \<or> newY \<ge> 20 \<or>
         (newY \<ge> 0 \<and> b ! nat newY ! nat (x + int px) \<noteq> Null)))"

text \<open>Every occupied cell of the shape row, mapped to the board row \<open>newY\<close>, lies within
  the columns and above the floor.\<close>

definition fitsRow :: "int \<Rightarrow> int \<Rightarrow> nat list \<Rightarrow> bool" where
  "fitsRow x newY cs \<longleftrightarrow>
     (\<forall>px<length cs. cs ! px \<noteq> 0 \<longrightarrow> 0 \<le> x + int px \<and> x + int px < 10 \<and> newY < 20)"

definition fits :: "int \<Rightarrow> int \<Rightarrow> shape \<Rightarrow> bool" where
  "fits x y piece \<longleftrightarrow> (\<forall>py<length piece. fitsRow x (y + int py) (piece ! py))"

text \<open>No row of the board is full.\<close>

definition noFullRow :: "grid \<Rightarrow> bool" where
  "noFullRow b \<longleftrightarrow> (\<forall>row\<in>set b. \<not> rowFull row)"

text \<open>The game that \<open>clearLines\<close> leaves when the board has 20 rows and at most four
  of them are full, in closed form.\<close>

definition cleared :: "game \<Rightarrow> game" where
  "cleared g =
     (let n = length (filter rowFull (board g));
          g1 = g\<lparr>board := replicate n emptyRow @ filter (\<lambda>r. \<not> rowFull r) (board g)\<rparr>
      in if n > 0
         then g1\<lparr>lines := lines g + int n,
                score := score g + scoreValues ! n * level g,
                level := (lines g + int n) div 10 + 1,
                dropTime := max 100 (1000 - ((lines g + int n) div 10 + 1 - 1) * 100)\<rparr>
         else g1)"

section \<open>The invariant of the game object and the reachable worlds\<close>

text \<open>
  The falling piece is a shape of the catalogue for the current type and rotation, its
  occupied cells lie within the columns and above the floor, and a next type has been
  drawn. The piece may overlap settled cells: that is the case after a spawn that
  collides, when the finalization of the game throws and the screen stays \<open>PLAYING\<close>.
\<close>

definition pieceOK :: "game \<Rightarrow> bool" where
  "pieceOK g \<longleftrightarrow>
     (\<exists>t. currentType g = Some t \<and> currentRotation g < length (shapes t) \<and>
          currentPiece g = Some (shapes t ! currentRotation g) \<and>
          fits (currentX g) (currentY g) (shapes t ! currentRotation g)) \<and>
     nextType g \<noteq> None"

text \<open>The level and the drop interval are the ones \<open>clearLines\<close> computes from the
  number of lines.\<close>

definition statsOK :: "game \<Rightarrow> bool" where
  "statsOK g \<longleftrightarrow>
     0 \<le> lines g \<and> level g = lines g div 10 + 1 \<and>
     dropTime g = max 100 (1000 - (level g - 1) * 100)"

definition gameInv :: "game \<Rightarrow> bool" where
  "gameInv g \<longleftrightarrow>
     boardOK (board g) \<and> noFullRow (board g) \<and> statsOK g \<and>
     (state g = PLAYING \<or> state g = PAUSED \<longrightarrow> pieceOK g)"

text \<open>
  The world a call leaves behind: the one it returns, or the one at the moment it throws
  a \<open>TypeError\<close>, with which the process goes on. \<open>NotANumber\<close> is no exception
  of the source; lemma \<open>reachable_progress\<close> shows that in a reachable world no key and
  no run of the timer loop ends with it, so that every event there has a successor.
\<close>

definition leaves :: "outcome \<Rightarrow> world \<Rightarrow> bool" where
  "leaves r w' \<longleftrightarrow> r = Inr w' \<or> r = Inl (TypeError, w')"

text \<open>
  The worlds a session can be in: the one the constructor builds, and from any of them
  the one a received key leaves, the one a run of the timer loop leaves, and the one after
  other sessions and the passing of time have changed the store and the clock.
\<close>

inductive reachable :: "world \<Rightarrow> bool" where
  reachable_new: "reachable (TetrisGame p st rnd t isoDate)"
| reachable_key: "reachable w \<Longrightarrow> onData key w = Some r \<Longrightarrow> leaves r w' \<Longrightarrow> reachable w'"
| reachable_tick: "reachable w \<Longrightarrow> leaves (gameLoop w) w' \<Longrightarrow> reachable w'"
| reachable_env: "reachable w \<Longrightarrow> reachable (w\<lparr>globals := st, clock := t, clockISO := isoDate\<rparr>)"

text \<open>The keys of a list, handled one after the other; an exception ends the run.\<close>

fun onDataAll :: "string list \<Rightarrow> world \<Rightarrow> outcome option" where
  "onDataAll [] w = Some (Inr w)"
| "onDataAll (key # keys) w =
     (case onData key w of
        None \<Rightarrow> None
      | Some (Inl thrown) \<Rightarrow> Some (Inl thrown)
      | Some (Inr w') \<Rightarrow> onDataAll keys w')"

subsection \<open>Sample stores for the concrete checks\<close>

definition demoPlayer :: "nat \<Rightarrow> player" where
  "demoPlayer i = \<lparr>ident = replicate (Suc i) (CHR ''p''), nick = ''guest'',
                    fingerprint = replicate (Suc i) (CHR ''p'')\<rparr>"

definition demoEntry :: "nat \<Rightarrow> scoreEntry" where
  "demoEntry i = \<lparr>playerId = ident (demoPlayer i), playerName = ''guest'', score = 1000 - int i,
                   level = 1, lines = 0, date = ''2024-01-01''\<rparr>"

definition demoInfo :: playerInfo where
  "demoInfo = \<lparr>name = ''guest'', firstSeen = ''2024-01-01'', lastSeen = ''2024-01-01'', scores = Some []\<rparr>"

definition demoStore :: "nat \<Rightarrow> store" where
  "demoStore n = \<lparr>highScores = map demoEntry [0..<n], playerData = (\<lambda>k. Some demoInfo)\<rparr>"

definition demoFinal :: "nat \<Rightarrow> int \<Rightarrow> finalization" where
  "demoFinal i sc = \<lparr>atDate = ''2024-02-02'', byPlayer = demoPlayer i, finalScore = sc, finalLevel = 3, finalLines = 25\<rparr>"


subsection \<open>Sample games for the concrete checks\<close>

text \<open>A new session whose random choices all select the key \<open>T\<close>.\<close>

definition demoWorld :: world where
  "demoWorld = TetrisGame (demoPlayer 0) (demoStore 3) (sconst PieceT) 0 ''2024-01-01''"

text \<open>
  A board before and after the piece \<open>I\<close> is written into the gap of row 18: rows 17 and
  19 each hold one cell, and row 18 becomes full.
\<close>

definition gapBoard :: grid where
  "gapBoard = replicate 17 emptyRow @
     [Tag PieceJ # replicate 9 Null,
      replicate 6 (Tag PieceO) @ replicate 4 Null,
      Tag PieceL # replicate 9 Null]"

definition stackedBoard :: grid where
  "stackedBoard = replicate 17 emptyRow @
     [Tag PieceJ # replicate 9 Null,
      replicate 6 (Tag PieceO) @ replicate 4 (Tag PieceI),
      Tag PieceL # replicate 9 Null]"

text \<open>The sample session after a first key has started a game.\<close>

definition demoStarted :: world where
  "demoStarted =
     \<lparr>this = \<lparr>player = demoPlayer 0, state = PLAYING, board = emptyBoard,
              currentPiece = Some [[0,1,0],[1,1,1]], currentType = Some PieceT,
              currentRotation = 0, currentX = 3, currentY = 0, nextType = Some PieceT,
              score = 0, level = 1, lines = 0, dropTime = 1000, lastDrop = 0,
              playerBest = 1000\<rparr>,
      globals = demoStore 3, random = sconst PieceT, clock = 0,
      clockISO = ''2024-01-01'', streamEnded = False\<rparr>"

text \<open>The same two seconds later, when the timer loop is due to drop the piece.\<close>

definition demoDue :: world where
  "demoDue = demoStarted\<lparr>clock := 2000\<rparr>"

text \<open>The score and the row of the piece after a step, for comparing two steps.\<close>

definition scoreAndRow :: "outcome \<Rightarrow> error + int \<times> int" where
  "scoreAndRow r = map_sum fst (\<lambda>w. (score (this w), currentY (this w))) r"

text \<open>The screen after a list of keys.\<close>

definition screenAfter :: "string list \<Rightarrow> world \<Rightarrow> (error + screen) option" where
  "screenAfter keys w = map_option (map_sum fst (\<lambda>w'. state (this w'))) (onDataAll keys w)"

text \<open>The sample game with the piece resting on the floor, the timer loop due.\<close>

definition demoLanded :: world where
  "demoLanded = demoDue\<lparr>this := (this demoDue)\<lparr>currentY := 18\<rparr>\<rparr>"

text \<open>
  A game in which the next lock completes the bottom row and takes the number of lines
  from 9 to 10: the piece \<open>I\<close> lies in the gap of row 19.
\<close>

definition nearlyFullBoard :: grid where
  "nearlyFullBoard = replicate 19 emptyRow @ [replicate 6 (Tag PieceO) @ replicate 4 Null]"

definition clearingGame :: game where
  "clearingGame =
     \<lparr>player = demoPlayer 0, state = PLAYING, board = nearlyFullBoard,
      currentPiece = Some [[1,1,1,1]], currentType = Some PieceI,
      currentRotation = 0, currentX = 6, currentY = 19, nextType = Some PieceT,
      score = 940, level = 1, lines = 9, dropTime = 1000, lastDrop = 0,
      playerBest = 1000\<rparr>"

definition demoClearing :: world where
  "demoClearing =
     \<lparr>this = clearingGame, globals = demoStore 3, random = sconst PieceT, clock = 0,
      clockISO = ''2024-01-01'', streamEnded = False\<rparr>"

text \<open>The board of that game with the piece written into the gap.\<close>

definition completedBoard :: grid where
  "completedBoard =
     replicate 19 emptyRow @ [replicate 6 (Tag PieceO) @ replicate 4 (Tag PieceI)]"

text \<open>
  The started sample game after another session has deleted the player's account, so that
  the store has no player object and a finalization of the game throws, and after \<open>k\<close>
  hard drops: \<open>k\<close> pieces \<open>T\<close> lie on top of each other, and a new \<open>T\<close> stands at the
  spawn position. After ten drops the stack fills the board up to row 0 and the new piece
  overlaps it.
\<close>

definition tStack :: "nat \<Rightarrow> grid" where
  "tStack k = replicate (20 - 2 * k) emptyRow @
     concat (replicate k [replicate 4 Null @ [Tag PieceT] @ replicate 5 Null,
                          replicate 3 Null @ replicate 3 (Tag PieceT) @ replicate 4 Null])"

definition stackedGame :: "nat \<Rightarrow> game" where
  "stackedGame k =
     \<lparr>player = demoPlayer 0, state = PLAYING, board = tStack k,
      currentPiece = Some [[0,1,0],[1,1,1]], currentType = Some PieceT,
      currentRotation = 0, currentX = 3, currentY = 0, nextType = Some PieceT,
      score = 2 * int k * (19 - int k), level = 1, lines = 0, dropTime = 1000, lastDrop = 0,
      playerBest = 1000\<rparr>"

definition orphanStack :: "nat \<Rightarrow> world" where
  "orphanStack k =
     \<lparr>this = stackedGame k, globals = \<lparr>highScores = [], playerData = Map.empty\<rparr>,
      random = sconst PieceT, clock = 0, clockISO = ''2024-01-01'', streamEnded = False\<rparr>"

section \<open>The leaderboard\<close>

lemma findIndex_ge: "- 1 \<le> findIndex P xs"
  by (induction xs) (auto simp: Let_def)

lemma findIndex_neg_iff: "findIndex P xs < 0 \<longleftrightarrow> (\<forall>x\<in>set xs. \<not> P x)"
  by (induction xs) (auto simp: Let_def)

lemma findIndex_nonneg:
  "0 \<le> findIndex P xs \<Longrightarrow> nat (findIndex P xs) < length xs \<and> P (xs ! nat (findIndex P xs))"
proof (induction xs)
  case Nil
  then show ?case by simp
next
  case (Cons x xs)
  show ?case
  proof (cases "P x")
    case True
    then show ?thesis by simp
  next
    case False
    with Cons.prems have nn: "0 \<le> findIndex P xs"
      by (simp add: Let_def split: if_splits)
    from Cons.IH [OF nn] False nn show ?thesis
      by (simp add: Let_def nat_add_distrib)
  qed
qed

lemma distinct_map_insort_key:
  "distinct (map f (insort_key g x xs)) = distinct (map f (x # xs))"
  by (induction xs) (auto simp: set_insort_key)

lemma distinct_map_sort_key: "distinct (map f (sort_key g xs)) = distinct (map f xs)"
  by (induction xs) (simp_all add: distinct_map_insort_key)

lemma sorted_sortScores: "sorted (map (\<lambda>e. - scoreEntry.score e) (sortScores hs))"
  by (simp add: sortScores_def)

lemma distinct_upserted:
  assumes "distinct (map playerId hs)" and "playerId e = ident p"
  shows "distinct (map playerId (upserted p sc e hs))"
proof (cases "0 \<le> findIndex (\<lambda>entry. playerId entry = ident p) hs")
  case True
  from findIndex_nonneg [OF True]
  have "map playerId (hs[nat (findIndex (\<lambda>entry. playerId entry = ident p) hs) := e]) = map playerId hs"
    using assms(2) by (simp add: map_update list_update_same_conv)
  with assms True show ?thesis by (simp add: upserted_def Let_def)
next
  case False
  then have "\<forall>x\<in>set hs. playerId x \<noteq> ident p"
    using findIndex_neg_iff [of "\<lambda>entry. playerId entry = ident p" hs] by simp
  with assms False show ?thesis by (auto simp: upserted_def Let_def)
qed

lemma updateHighScore_scores:
  assumes "updateHighScore now p sc lv ln st = Inr (rank, st')"
  shows "highScores st' = take 50 (sortScores (upserted p sc
           \<lparr>playerId = ident p, playerName = nick p, score = sc, level = lv, lines = ln, date = now\<rparr>
           (highScores st)))"
  using assms
  by (auto simp: updateHighScore_def upserted_def Let_def MAX_HIGHSCORE_ENTRIES_def
      split: option.splits)

lemma leaderboardInv_take_sort:
  assumes "distinct (map playerId hs)"
  shows "leaderboardInv (take 50 (sortScores hs))"
proof -
  have "distinct (map playerId (sortScores hs))"
    using assms by (simp add: sortScores_def distinct_map_sort_key)
  then have d: "distinct (map playerId (take 50 (sortScores hs)))"
    by (simp add: take_map [symmetric] del: take_map)
  have "sorted (take 50 (map (\<lambda>e. - scoreEntry.score e) (sortScores hs)))"
    using sorted_sortScores [of hs] sorted_wrt_take by blast
  then have s: "sorted (map (\<lambda>e. - scoreEntry.score e) (take 50 (sortScores hs)))"
    by (simp add: take_map)
  from d s show ?thesis by (simp add: leaderboardInv_def)
qed

lemma updateHighScore_inv:
  assumes "leaderboardInv (highScores st)"
    and "updateHighScore now p sc lv ln st = Inr (rank, st')"
  shows "leaderboardInv (highScores st')"
proof -
  from assms(1) have "distinct (map playerId (highScores st))"
    by (simp add: leaderboardInv_def)
  then have "distinct (map playerId (upserted p sc
           \<lparr>playerId = ident p, playerName = nick p, score = sc, level = lv, lines = ln, date = now\<rparr>
           (highScores st)))"
    by (rule distinct_upserted) simp
  then show ?thesis
    unfolding updateHighScore_scores [OF assms(2)] by (rule leaderboardInv_take_sort)
qed

lemma finalize_inv: "leaderboardInv (highScores st) \<Longrightarrow> leaderboardInv (highScores (finalize c st))"
  by (auto simp: finalize_def split: sum.splits dest: updateHighScore_inv)

lemma finalizeAll_inv:
  "leaderboardInv (highScores st) \<Longrightarrow> leaderboardInv (highScores (finalizeAll cs st))"
  by (induction cs arbitrary: st) (simp_all add: finalize_inv)

lemma filter_take_ex: "\<exists>m. filter P (take n xs) = take m (filter P xs)"
proof (induction xs arbitrary: n)
  case Nil
  then show ?case by simp
next
  case (Cons x xs)
  show ?case
  proof (cases n)
    case 0
    then show ?thesis by (intro exI [of _ 0]) simp
  next
    case (Suc k)
    from Cons.IH [of k] obtain m where m: "filter P (take k xs) = take m (filter P xs)" ..
    show ?thesis
    proof (cases "P x")
      case True
      with m Suc show ?thesis by (intro exI [of _ "Suc m"]) simp
    next
      case False
      with m Suc show ?thesis by (intro exI [of _ m]) simp
    qed
  qed
qed

lemma sortScores_stable:
  "filter (\<lambda>e. scoreEntry.score e = k) (sortScores hs) = filter (\<lambda>e. scoreEntry.score e = k) hs"
proof -
  have "(\<lambda>e::scoreEntry. scoreEntry.score e = k) = (\<lambda>e. - scoreEntry.score e = - k)"
    by auto
  then show ?thesis
    by (simp only: sortScores_def sort_key_stable)
qed

lemma sortScores_id: "sorted (map (\<lambda>e. - scoreEntry.score e) hs) \<Longrightarrow> sortScores hs = hs"
  by (simp add: sortScores_def sort_key_id_if_sorted)

lemma find_findIndex:
  "find P xs = (if findIndex P xs < 0 then None else Some (xs ! nat (findIndex P xs)))"
proof (induction xs)
  case Nil
  then show ?case by simp
next
  case (Cons x xs)
  have "- 1 \<le> findIndex P xs" by (rule findIndex_ge)
  with Cons show ?case
    by (auto simp: Let_def nat_add_distrib)
qed

lemma updateHighScore_succeeds:
  "playerData st (ident p) = Some info \<Longrightarrow> \<exists>rank st'. updateHighScore now p sc lv ln st = Inr (rank, st')"
  by (simp add: updateHighScore_def Let_def)

lemma updateHighScore_fails:
  "playerData st (ident p) = None \<Longrightarrow> updateHighScore now p sc lv ln st = Inl TypeError"
  by (simp add: updateHighScore_def Let_def)

lemma no_eviction:
  assumes "length (upserted p sc e hs) \<le> 50" and "old \<in> set hs" and "playerId old \<noteq> ident p"
  shows "old \<in> set (take 50 (sortScores (upserted p sc e hs)))"
proof -
  have "old \<in> set (upserted p sc e hs)"
  proof (cases "0 \<le> findIndex (\<lambda>entry. playerId entry = ident p) hs")
    case True
    let ?i = "nat (findIndex (\<lambda>entry. playerId entry = ident p) hs)"
    from findIndex_nonneg [OF True] have i: "?i < length hs" "playerId (hs ! ?i) = ident p"
      by simp_all
    from assms(2) obtain j where j: "j < length hs" "hs ! j = old"
      by (auto simp: in_set_conv_nth)
    with i assms(3) have "j \<noteq> ?i" by auto
    with j have "hs[?i := e] ! j = old" "j < length (hs[?i := e])" by simp_all
    then have "old \<in> set (hs[?i := e])" by (metis nth_mem)
    with True assms(2) show ?thesis by (simp add: upserted_def Let_def)
  next
    case False
    with assms(2) show ?thesis by (simp add: upserted_def Let_def)
  qed
  moreover have "take 50 (sortScores (upserted p sc e hs)) = sortScores (upserted p sc e hs)"
    using assms(1) by (simp add: sortScores_def)
  ultimately show ?thesis by (simp add: sortScores_def)
qed

text \<open>
  Claim C1, as the code has it. Starting from a leaderboard that satisfies the invariant
  (the empty one does), after any sequence of \<open>updateHighScore\<close> calls the leaderboard
  holds at most one entry for each \<open>playerId\<close>, is ordered by descending score and has at
  most 50 entries. A single call by a known player returns, and its leaderboard is the
  first \<open>min(50, MAX_HIGHSCORE_ENTRIES) = 50\<close> entries of the stably sorted list: the
  entries of equal score are a prefix of those of the list before sorting, in the same
  order, and an entry of another player disappears only when more than 50 entries would
  otherwise remain.
\<close>

theorem leaderboard_invariant_capacity:
  assumes inv: "leaderboardInv (highScores st)"
    and known: "playerData st (ident p) = Some info"
    and e: "e = \<lparr>playerId = ident p, playerName = nick p, score = sc, level = lv, lines = ln, date = now\<rparr>"
    and hs: "hs = upserted p sc e (highScores st)"
  shows "leaderboardInv (highScores (finalizeAll cs st)) \<and>
         leaderboardInv (highScores (finalizeAll cs (st\<lparr>highScores := []\<rparr>))) \<and>
         (\<exists>rank st'. updateHighScore now p sc lv ln st = Inr (rank, st') \<and>
            leaderboardInv (highScores st') \<and>
            highScores st' = take 50 (sortScores hs) \<and>
            (\<forall>k. \<exists>m. filter (\<lambda>x. scoreEntry.score x = k) (highScores st')
                       = take m (filter (\<lambda>x. scoreEntry.score x = k) hs)) \<and>
            (\<forall>old\<in>set (highScores st).
                playerId old \<noteq> ident p \<and> old \<notin> set (highScores st') \<longrightarrow> 50 < length hs))"
proof -
  from updateHighScore_succeeds [OF known] obtain rank st'
    where upd: "updateHighScore now p sc lv ln st = Inr (rank, st')" by blast
  have eq: "highScores st' = take 50 (sortScores hs)"
    unfolding hs e by (rule updateHighScore_scores [OF upd])
  have stable: "\<exists>m. filter (\<lambda>x. scoreEntry.score x = k) (highScores st')
                  = take m (filter (\<lambda>x. scoreEntry.score x = k) hs)" for k
    using filter_take_ex [of "\<lambda>x. scoreEntry.score x = k" 50 "sortScores hs"]
    by (simp only: eq sortScores_stable)
  have evict: "50 < length hs"
    if "old \<in> set (highScores st)" "playerId old \<noteq> ident p" "old \<notin> set (highScores st')" for old
  proof (rule ccontr)
    assume "\<not> 50 < length hs"
    then have "length (upserted p sc e (highScores st)) \<le> 50" by (simp add: hs)
    from no_eviction [OF this that(1,2)] that(3) show False by (simp add: eq hs)
  qed
  have A: "leaderboardInv (highScores (finalizeAll cs st))"
    by (rule finalizeAll_inv [OF inv])
  have B: "\<exists>rank st'. updateHighScore now p sc lv ln st = Inr (rank, st') \<and>
            leaderboardInv (highScores st') \<and>
            highScores st' = take 50 (sortScores hs) \<and>
            (\<forall>k. \<exists>m. filter (\<lambda>x. scoreEntry.score x = k) (highScores st')
                       = take m (filter (\<lambda>x. scoreEntry.score x = k) hs)) \<and>
            (\<forall>old\<in>set (highScores st).
                playerId old \<noteq> ident p \<and> old \<notin> set (highScores st') \<longrightarrow> 50 < length hs)"
  proof (intro exI conjI)
    show "updateHighScore now p sc lv ln st = Inr (rank, st')" by (rule upd)
    show "leaderboardInv (highScores st')" by (rule updateHighScore_inv [OF inv upd])
    show "highScores st' = take 50 (sortScores hs)" by (rule eq)
    show "\<forall>k. \<exists>m. filter (\<lambda>x. scoreEntry.score x = k) (highScores st')
                       = take m (filter (\<lambda>x. scoreEntry.score x = k) hs)"
      by (intro allI stable)
    show "\<forall>old\<in>set (highScores st).
                playerId old \<noteq> ident p \<and> old \<notin> set (highScores st') \<longrightarrow> 50 < length hs"
      using evict by blast
  qed
  have E: "leaderboardInv (highScores (finalizeAll cs (st\<lparr>highScores := []\<rparr>)))"
    by (rule finalizeAll_inv) (simp add: leaderboardInv_def)
  from A E B show ?thesis by (intro conjI)
qed

lemma demoStore_inv: "n \<le> 50 \<Longrightarrow> leaderboardInv (highScores (demoStore n))"
proof -
  assume n: "n \<le> 50"
  have "inj_on (\<lambda>i. playerId (demoEntry i)) (set [0..<n])"
    by (rule inj_onI) (simp add: demoEntry_def demoPlayer_def replicate_eq_replicate)
  then have d: "distinct (map playerId (map demoEntry [0..<n]))"
    by (simp add: distinct_map comp_def)
  have s: "sorted (map (\<lambda>e. - scoreEntry.score e) (map demoEntry [0..<n]))"
    by (simp add: sorted_iff_nth_mono demoEntry_def)
  from d s n show ?thesis by (simp add: leaderboardInv_def demoStore_def)
qed

lemma cx_a: "demoEntry 49 \<notin> set (highScores (finalize (demoFinal 50 2000) (demoStore 50)))"
  by code_simp

lemma cx_b: "length (highScores (finalize (demoFinal 50 2000) (demoStore 50))) = 50"
  by (simp add: finalize_def updateHighScore_def Let_def MAX_HIGHSCORE_ENTRIES_def
      demoStore_def demoFinal_def sortScores_def split: option.splits)

text \<open>
  The capacity as claim C1 states it (the top 100) fails: a leaderboard of 50 entries that
  receives the first score of a new player would hold 51 entries, and the entry with the
  lowest score is dropped.
\<close>

theorem leaderboard_capacity_counterexample:
  "leaderboardInv (highScores (demoStore 50)) \<and>
   length (highScores (demoStore 50)) = 50 \<and>
   demoEntry 49 \<in> set (highScores (demoStore 50)) \<and>
   playerId (demoEntry 49) \<noteq> ident (byPlayer (demoFinal 50 2000)) \<and>
   demoEntry 49 \<notin> set (highScores (finalize (demoFinal 50 2000) (demoStore 50))) \<and>
   length (highScores (finalize (demoFinal 50 2000) (demoStore 50))) = 50"
proof (intro conjI)
  show "leaderboardInv (highScores (demoStore 50))" by (rule demoStore_inv) simp
  show "length (highScores (demoStore 50)) = 50" by (simp add: demoStore_def)
  show "demoEntry 49 \<in> set (highScores (demoStore 50))" by (simp add: demoStore_def)
  show "playerId (demoEntry 49) \<noteq> ident (byPlayer (demoFinal 50 2000))"
    by (simp add: demoEntry_def demoFinal_def demoPlayer_def replicate_eq_replicate)
  show "demoEntry 49 \<notin> set (highScores (finalize (demoFinal 50 2000) (demoStore 50)))"
    by (rule cx_a)
  show "length (highScores (finalize (demoFinal 50 2000) (demoStore 50))) = 50"
    by (rule cx_b)
qed

text \<open>
  Claim C6. On a leaderboard that satisfies the invariant, a call of \<open>updateHighScore\<close>
  for a player who has an entry, with a score that does not exceed the player's best
  score, leaves \<open>highScores\<close> as it was: the same entries in the same order. This holds
  for the store a successful call returns, and for the store after a call that throws.
\<close>

theorem upsert_idempotent:
  assumes inv: "leaderboardInv (highScores st)"
    and has: "\<exists>x\<in>set (highScores st). playerId x = ident p"
    and le: "sc \<le> getPlayerBestScore (ident p) st"
  shows "(\<forall>rank st'. updateHighScore now p sc lv ln st = Inr (rank, st') \<longrightarrow>
            highScores st' = highScores st) \<and>
         highScores (finalize \<lparr>atDate = now, byPlayer = p, finalScore = sc, finalLevel = lv,
                               finalLines = ln\<rparr> st) = highScores st"
proof -
  let ?e = "\<lparr>playerId = ident p, playerName = nick p, score = sc, level = lv, lines = ln, date = now\<rparr>"
  let ?i = "findIndex (\<lambda>entry. playerId entry = ident p) (highScores st)"
  have "\<not> ?i < 0"
    using has by (simp only: findIndex_neg_iff) blast
  then have nn: "0 \<le> ?i" by simp
  then have "getPlayerBestScore (ident p) st = scoreEntry.score (highScores st ! nat ?i)"
    by (simp add: getPlayerBestScore_def find_findIndex)
  with le nn have ups: "upserted p sc ?e (highScores st) = highScores st"
    by (simp add: upserted_def Let_def)
  have same: "take 50 (sortScores (highScores st)) = highScores st"
    using inv by (simp add: leaderboardInv_def sortScores_id)
  have step: "highScores st' = highScores st"
    if "updateHighScore now p sc lv ln st = Inr (rank, st')" for rank st'
    using updateHighScore_scores [OF that] by (simp add: ups same)
  have fin: "highScores (finalize \<lparr>atDate = now, byPlayer = p, finalScore = sc, finalLevel = lv,
                               finalLines = ln\<rparr> st) = highScores st"
  proof (cases "updateHighScore now p sc lv ln st")
    case (Inl e)
    then show ?thesis by (simp add: finalize_def)
  next
    case (Inr r)
    obtain rank st' where r: "r = (rank, st')" by (cases r)
    from step [of rank st'] Inr r show ?thesis by (simp add: finalize_def)
  qed
  from step fin show ?thesis by blast
qed

theorem leaderboard_invariant_capacity_witness:
  "leaderboardInv (highScores (demoStore 3)) \<and>
   playerData (demoStore 3) (ident (demoPlayer 1)) = Some demoInfo \<and>
   leaderboardInv (highScores (finalizeAll [demoFinal 1 5000, demoFinal 7 10] (demoStore 3))) \<and>
   (\<exists>rank st'. updateHighScore ''2024-02-02'' (demoPlayer 1) 5000 3 25 (demoStore 3) = Inr (rank, st') \<and>
      highScores st' = take 50 (sortScores (upserted (demoPlayer 1) 5000
         \<lparr>playerId = ident (demoPlayer 1), playerName = nick (demoPlayer 1), score = 5000,
          level = 3, lines = 25, date = ''2024-02-02''\<rparr> (highScores (demoStore 3)))))"
proof -
  have h1: "leaderboardInv (highScores (demoStore 3))"
    by code_simp
  have h2: "playerData (demoStore 3) (ident (demoPlayer 1)) = Some demoInfo"
    by (simp add: demoStore_def)
  from leaderboard_invariant_capacity [OF h1 h2 refl refl,
      where sc = 5000 and lv = 3 and ln = 25 and now = "''2024-02-02''"
        and cs = "[demoFinal 1 5000, demoFinal 7 10]"]
  have "leaderboardInv (highScores (finalizeAll [demoFinal 1 5000, demoFinal 7 10] (demoStore 3)))"
    and "\<exists>rank st'. updateHighScore ''2024-02-02'' (demoPlayer 1) 5000 3 25 (demoStore 3) = Inr (rank, st') \<and>
      highScores st' = take 50 (sortScores (upserted (demoPlayer 1) 5000
         \<lparr>playerId = ident (demoPlayer 1), playerName = nick (demoPlayer 1), score = 5000,
          level = 3, lines = 25, date = ''2024-02-02''\<rparr> (highScores (demoStore 3))))"
    by blast+
  with h1 h2 show ?thesis by (intro conjI)
qed

theorem upsert_idempotent_witness:
  "leaderboardInv (highScores (demoStore 3)) \<and>
   (\<exists>x\<in>set (highScores (demoStore 3)). playerId x = ident (demoPlayer 1)) \<and>
   (999::int) \<le> getPlayerBestScore (ident (demoPlayer 1)) (demoStore 3) \<and>
   highScores (finalize (demoFinal 1 999) (demoStore 3)) = highScores (demoStore 3)"
proof -
  have h1: "leaderboardInv (highScores (demoStore 3))"
    by code_simp
  have h2: "\<exists>x\<in>set (highScores (demoStore 3)). playerId x = ident (demoPlayer 1)"
    by code_simp
  have h3: "(999::int) \<le> getPlayerBestScore (ident (demoPlayer 1)) (demoStore 3)"
    by code_simp
  from upsert_idempotent [OF h1 h2 h3, where now = "''2024-02-02''" and lv = 3 and ln = 25] h1 h2 h3
  show ?thesis by (simp add: demoFinal_def)
qed

section \<open>The collision test\<close>

lemma truthy_iff: "c \<noteq> Undefined \<Longrightarrow> truthy c \<longleftrightarrow> c \<noteq> Null"
  by (cases c) simp_all

lemma cellAt_inside:
  assumes "boardOK b" "0 \<le> y" "y < 20" "0 \<le> x" "x < 10"
  shows "cellAt b y x = Inr (b ! nat y ! nat x)" and "b ! nat y ! nat x \<noteq> Undefined"
proof -
  from assms have y: "nat y < length b" by (simp add: boardOK_def)
  then have row: "b ! nat y \<in> set b" by simp
  with assms have len: "length (b ! nat y) = 10" by (simp add: boardOK_def)
  with assms have x: "nat x < length (b ! nat y)" by simp
  from y x assms show "cellAt b y x = Inr (b ! nat y ! nat x)" by (simp add: cellAt_def)
  from x have "b ! nat y ! nat x \<in> set (b ! nat y)" by simp
  with row assms(1) show "b ! nat y ! nat x \<noteq> Undefined" by (auto simp: boardOK_def)
qed

lemma hitsRow_Cons:
  "hitsRow b x newY (c # cs) \<longleftrightarrow>
     (c \<noteq> 0 \<and> (x < 0 \<or> x \<ge> 10 \<or> newY \<ge> 20 \<or> (newY \<ge> 0 \<and> b ! nat newY ! nat x \<noteq> Null)))
     \<or> hitsRow b (x + 1) newY cs"
  by (simp add: hitsRow_def Ex_less_Suc2 add.assoc)

lemma checkRow_hitsRow:
  "boardOK b \<Longrightarrow> checkRow b newX newY cs = Inr (hitsRow b newX newY cs)"
proof (induction cs arbitrary: newX)
  case Nil
  then show ?case by (simp add: hitsRow_def)
next
  case (Cons c cs)
  show ?case
  proof (cases "c \<noteq> 0 \<and> 0 \<le> newX \<and> newX < 10 \<and> 0 \<le> newY \<and> newY < 20")
    case True
    with cellAt_inside [OF Cons.prems, of newY newX] Cons.IH [OF Cons.prems, of "newX + 1"]
    show ?thesis by (auto simp: hitsRow_Cons truthy_iff)
  next
    case False
    with Cons.IH [OF Cons.prems, of "newX + 1"] show ?thesis
      by (auto simp: hitsRow_Cons)
  qed
qed

lemma hits_Nil: "\<not> hits b x y []"
  by (simp add: hits_def)

lemma hits_Cons: "hits b x y (row # rows) \<longleftrightarrow> hitsRow b x y row \<or> hits b x (y + 1) rows"
  by (simp add: hits_def hitsRow_def Ex_less_Suc2 add.assoc)

lemma checkRows_hits: "boardOK b \<Longrightarrow> checkRows b x y piece = Inr (hits b x y piece)"
proof (induction piece arbitrary: y)
  case Nil
  then show ?case by (simp add: hits_Nil)
next
  case (Cons row rows)
  then show ?case
    by (simp add: checkRow_hitsRow hits_Cons)
qed

text \<open>
  Claim C4. On a board of 20 rows of 10 cells, \<open>checkCollision\<close> returns \<open>true\<close> if and
  only if some occupied cell of the shape maps to a column outside \<open>[0,10)\<close>, or to a row
  \<open>\<ge> 20\<close>, or to a row \<open>\<ge> 0\<close> whose board cell is not \<open>null\<close>. A cell that maps to a row
  \<open>< 0\<close> is tested against the column bounds only: for a shape that lies above the board
  as a whole, the result is whether some occupied cell leaves the columns.
\<close>

theorem checkCollision_iff:
  assumes "boardOK (board g)"
  shows "checkCollision g x y (Some piece) =
           Inr (\<exists>py<length piece. \<exists>px<length (piece ! py).
                  piece ! py ! px \<noteq> 0 \<and>
                  (x + int px < 0 \<or> x + int px \<ge> 10 \<or> y + int py \<ge> 20 \<or>
                   (y + int py \<ge> 0 \<and> board g ! nat (y + int py) ! nat (x + int px) \<noteq> Null))) \<and>
         ((\<forall>py<length piece. y + int py < 0) \<longrightarrow>
            checkCollision g x y (Some piece) =
              Inr (\<exists>py<length piece. \<exists>px<length (piece ! py).
                     piece ! py ! px \<noteq> 0 \<and> (x + int px < 0 \<or> x + int px \<ge> 10)))"
proof -
  have main: "checkCollision g x y (Some piece) = Inr (hits (board g) x y piece)"
    using assms by (simp add: checkCollision_def checkRows_hits)
  have above: "hits (board g) x y piece \<longleftrightarrow>
      (\<exists>py<length piece. \<exists>px<length (piece ! py).
                     piece ! py ! px \<noteq> 0 \<and> (x + int px < 0 \<or> x + int px \<ge> 10))"
    if "\<forall>py<length piece. y + int py < 0"
    unfolding hits_def using that by (intro ex_cong1 conj_cong refl) fastforce
  from main above show ?thesis
    by (simp add: hits_def)
qed

theorem checkCollision_iff_witness:
  "boardOK (board (this demoWorld)) \<and>
   checkCollision (this demoWorld) 8 0 (Some [[1,1,1,1]]) = Inr True \<and>
   checkCollision (this demoWorld) 3 0 (Some [[1,1,1,1]]) = Inr False"
proof -
  have h: "boardOK (board (this demoWorld))"
    by (simp add: boardOK_def demoWorld_def TetrisGame_def emptyBoard_def emptyRow_def)
  have b: "board (this demoWorld) = emptyBoard"
    by (simp add: demoWorld_def TetrisGame_def)
  have t: "(\<exists>py<length [[1,1,1,1::nat]]. \<exists>px<length ([[1,1,1,1::nat]] ! py).
                  [[1,1,1,1::nat]] ! py ! px \<noteq> 0 \<and>
                  (8 + int px < 0 \<or> 8 + int px \<ge> 10 \<or> 0 + int py \<ge> 20 \<or>
                   (0 + int py \<ge> 0 \<and> emptyBoard ! nat (0 + int py) ! nat (8 + int px) \<noteq> Null)))"
  proof (intro exI conjI)
    show "(0::nat) < length [[1,1,1,1::nat]]" by simp
    show "(3::nat) < length ([[1,1,1,1::nat]] ! 0)" by simp
    show "[[1,1,1,1::nat]] ! 0 ! 3 \<noteq> 0" by simp
    show "8 + int 3 < 0 \<or> 8 + int 3 \<ge> 10 \<or> 0 + int 0 \<ge> 20 \<or>
                   (0 + int 0 \<ge> 0 \<and> emptyBoard ! nat (0 + int 0) ! nat (8 + int 3) \<noteq> Null)"
      by simp
  qed
  have f: "\<not> (\<exists>py<length [[1,1,1,1::nat]]. \<exists>px<length ([[1,1,1,1::nat]] ! py).
                  [[1,1,1,1::nat]] ! py ! px \<noteq> 0 \<and>
                  (3 + int px < 0 \<or> 3 + int px \<ge> 10 \<or> 0 + int py \<ge> 20 \<or>
                   (0 + int py \<ge> 0 \<and> emptyBoard ! nat (0 + int py) ! nat (3 + int px) \<noteq> Null)))"
    by (auto simp: emptyBoard_def emptyRow_def)
  from checkCollision_iff [OF h, of 8 0 "[[1,1,1,1]]"] t
  have c1: "checkCollision (this demoWorld) 8 0 (Some [[1,1,1,1]]) = Inr True"
    by (simp only: b simp_thms)
  from checkCollision_iff [OF h, of 3 0 "[[1,1,1,1]]"] f
  have c2: "checkCollision (this demoWorld) 3 0 (Some [[1,1,1,1]]) = Inr False"
    by (simp only: b simp_thms)
  from h c1 c2 show ?thesis by (intro conjI)
qed

section \<open>Line clearing and placement\<close>

lemma length_removeRow: "y < length b \<Longrightarrow> length (removeRow y b) = length b"
  by (simp add: removeRow_def)

lemma not_full_emptyRow: "\<not> rowFull emptyRow"
  by (simp add: rowFull_def emptyRow_def)

lemma clearLoop_result:
  "k \<le> length b \<Longrightarrow>
   clearLoop k b n =
     Inr (replicate (length (filter rowFull (take k b))) emptyRow
            @ filter (\<lambda>r. \<not> rowFull r) (take k b) @ drop k b,
          n + length (filter rowFull (take k b)))"
proof (induction k b n rule: clearLoop.induct)
  case (1 b linesCleared)
  then show ?case by simp
next
  case (2 y b linesCleared)
  from "2.prems" have y: "y < length b" by simp
  have tk: "take (Suc y) b = take y b @ [b ! y]"
    using y by (rule take_Suc_conv_app_nth)
  show ?case
  proof (cases "rowFull (b ! y)")
    case True
    have len: "Suc y \<le> length (removeRow y b)"
      using y by (simp add: length_removeRow)
    have t: "take (Suc y) (removeRow y b) = emptyRow # take y b"
      using y by (simp add: removeRow_def)
    have d: "drop (Suc y) (removeRow y b) = drop (Suc y) b"
      using y by (simp add: removeRow_def)
    from "2.IH"(1) [OF _ True len] y
    have "clearLoop (Suc y) (removeRow y b) (linesCleared + 1) =
        Inr (replicate (length (filter rowFull (take y b))) emptyRow
               @ emptyRow # filter (\<lambda>r. \<not> rowFull r) (take y b) @ drop (Suc y) b,
             linesCleared + 1 + length (filter rowFull (take y b)))"
      by (simp add: t d not_full_emptyRow)
    with True y show ?thesis
      by (simp add: tk replicate_app_Cons_same)
  next
    case False
    from "2.prems" have "y \<le> length b" by simp
    from "2.IH"(2) [OF _ False this] y
    have "clearLoop y b linesCleared =
        Inr (replicate (length (filter rowFull (take y b))) emptyRow
               @ filter (\<lambda>r. \<not> rowFull r) (take y b) @ drop y b,
             linesCleared + length (filter rowFull (take y b)))"
      by simp
    with False y show ?thesis
      by (simp add: tk Cons_nth_drop_Suc)
  qed
qed

lemma clearLoop_20:
  assumes "length b = 20"
  shows "clearLoop 20 b 0 =
           Inr (replicate (length (filter rowFull b)) emptyRow @ filter (\<lambda>r. \<not> rowFull r) b,
                length (filter rowFull b))"
  using clearLoop_result [of 20 b 0] assms by simp

text \<open>Where a row that is kept ends up.\<close>

lemma kept_row_position:
  assumes "i < length b" and "\<not> rowFull (b ! i)"
  shows "(replicate (length (filter rowFull b)) emptyRow @ filter (\<lambda>r. \<not> rowFull r) b)
           ! (i + length (filter rowFull (drop (Suc i) b))) = b ! i"
proof -
  let ?keep = "\<lambda>r. \<not> rowFull r"
  have split: "b = take i b @ b ! i # drop (Suc i) b"
    using assms(1) by (rule id_take_nth_drop)
  have cnt: "length (filter rowFull b)
      = length (filter rowFull (take i b)) + length (filter rowFull (drop (Suc i) b))"
    using assms(2) by (subst split) simp
  have keepf: "filter ?keep b = filter ?keep (take i b) @ b ! i # filter ?keep (drop (Suc i) b)"
    using assms(2) by (subst split) simp
  have sum: "length (filter rowFull (take i b)) + length (filter ?keep (take i b)) = i"
    using sum_length_filter_compl [of rowFull "take i b"] assms(1) by simp
  have idx: "i + length (filter rowFull (drop (Suc i) b))
      = length (replicate (length (filter rowFull b)) emptyRow @ filter ?keep (take i b))"
    using cnt sum by simp
  show ?thesis
    unfolding keepf idx
    by (metis append.assoc nth_append_length)
qed

lemma fitsRow_Cons:
  "fitsRow x newY (c # cs) \<longleftrightarrow>
     (c \<noteq> 0 \<longrightarrow> 0 \<le> x \<and> x < 10 \<and> newY < 20) \<and> fitsRow (x + 1) newY cs"
  by (simp add: fitsRow_def All_less_Suc2 add.assoc)

lemma fits_Cons: "fits x y (row # rows) \<longleftrightarrow> fitsRow x y row \<and> fits x (y + 1) rows"
  by (simp add: fits_def All_less_Suc2 add.assoc)

lemma fits_Nil: "fits x y []"
  by (simp add: fits_def)

lemma not_hitsRow_fitsRow:
  assumes "\<not> hitsRow b x newY cs"
  shows "fitsRow x newY cs"
  unfolding fitsRow_def
proof (intro allI impI)
  fix px assume "px < length cs" "cs ! px \<noteq> 0"
  with assms have "\<not> (x + int px < 0 \<or> x + int px \<ge> 10 \<or> newY \<ge> 20)"
    unfolding hitsRow_def by blast
  then show "0 \<le> x + int px \<and> x + int px < 10 \<and> newY < 20" by linarith
qed

lemma not_hits_fits: "\<not> hits b x y piece \<Longrightarrow> fits x y piece"
  by (induction piece arbitrary: y) (auto simp: fits_Nil fits_Cons hits_Cons not_hitsRow_fitsRow)

lemma boardOK_update:
  assumes "boardOK b" "i < length b" "j < length (b ! i)" "v \<noteq> Undefined"
  shows "boardOK (b[i := (b ! i)[j := v]])"
proof -
  have "length row = 10 \<and> (\<forall>c\<in>set row. c \<noteq> Undefined)"
    if "row \<in> set (b[i := (b ! i)[j := v]])" for row
  proof -
    from that have "row = (b ! i)[j := v] \<or> row \<in> set b"
      using set_update_subset_insert [of b i "(b ! i)[j := v]"] by auto
    then show ?thesis
    proof
      assume r: "row = (b ! i)[j := v]"
      from assms(2) have "b ! i \<in> set b" by simp
      with assms(1) have ok: "length (b ! i) = 10" "\<forall>c\<in>set (b ! i). c \<noteq> Undefined"
        by (simp_all add: boardOK_def)
      have "set ((b ! i)[j := v]) \<subseteq> insert v (set (b ! i))"
        by (rule set_update_subset_insert)
      with ok assms(4) r show ?thesis by auto
    next
      assume "row \<in> set b"
      with assms(1) show ?thesis by (simp add: boardOK_def)
    qed
  qed
  with assms(1) show ?thesis by (simp add: boardOK_def)
qed

lemma setCell_inside:
  assumes "boardOK b" "0 \<le> y" "y < 20" "0 \<le> x" "x < 10"
  shows "setCell b y x v = Inr (b[nat y := (b ! nat y)[nat x := v]])"
proof -
  from assms have y: "nat y < length b" by (simp add: boardOK_def)
  then have "b ! nat y \<in> set b" by simp
  with assms have "length (b ! nat y) = 10" by (simp add: boardOK_def)
  moreover from assms have "nat x < 10" by linarith
  ultimately show ?thesis using assms y by (simp add: setCell_def Let_def)
qed

lemma setCell_boardOK:
  assumes "boardOK b" "0 \<le> y" "y < 20" "0 \<le> x" "x < 10" "v \<noteq> Undefined"
  shows "\<exists>b'. setCell b y x v = Inr b' \<and> boardOK b'"
proof -
  from assms have y: "nat y < length b" by (simp add: boardOK_def)
  then have "b ! nat y \<in> set b" by simp
  with assms have "length (b ! nat y) = 10" by (simp add: boardOK_def)
  with assms have x: "nat x < length (b ! nat y)" by simp
  from boardOK_update [OF assms(1) y x assms(6)] setCell_inside [OF assms(1-5)]
  show ?thesis by simp
qed

lemma placeRow_boardOK:
  "boardOK b \<Longrightarrow> fitsRow x newY cs \<Longrightarrow> v \<noteq> Undefined \<Longrightarrow>
   \<exists>b'. placeRow b v x newY cs = Inr b' \<and> boardOK b'"
proof (induction cs arbitrary: b x)
  case Nil
  then show ?case by simp
next
  case (Cons c cs)
  from Cons.prems(2) have rest: "fitsRow (x + 1) newY cs"
    by (simp add: fitsRow_Cons)
  show ?case
  proof (cases "c \<noteq> 0 \<and> newY \<ge> 0")
    case True
    with Cons.prems(2) have "0 \<le> x" "x < 10" "newY < 20" "0 \<le> newY"
      by (simp_all add: fitsRow_Cons)
    from setCell_boardOK [OF Cons.prems(1) this(4,3,1,2) Cons.prems(3)]
    obtain b1 where b1: "setCell b newY x v = Inr b1" "boardOK b1" by blast
    from Cons.IH [OF b1(2) rest Cons.prems(3)] b1(1) True show ?thesis by simp
  next
    case False
    with Cons.IH [OF Cons.prems(1) rest Cons.prems(3)] show ?thesis by auto
  qed
qed

lemma placeRows_boardOK:
  "boardOK b \<Longrightarrow> fits x y piece \<Longrightarrow> v \<noteq> Undefined \<Longrightarrow>
   \<exists>b'. placeRows b v x y piece = Inr b' \<and> boardOK b'"
proof (induction piece arbitrary: b y)
  case Nil
  then show ?case by simp
next
  case (Cons row rows)
  from Cons.prems(2) have f: "fitsRow x y row" "fits x (y + 1) rows"
    by (simp_all add: fits_Cons)
  from placeRow_boardOK [OF Cons.prems(1) f(1) Cons.prems(3)]
  obtain b1 where b1: "placeRow b v x y row = Inr b1" "boardOK b1" by blast
  from Cons.IH [OF b1(2) f(2) Cons.prems(3)] b1(1) show ?case by simp
qed

text \<open>A placement leaves the number of rows and every row outside the shape's rows alone.\<close>

lemma setCell_other_rows:
  "setCell b y x v = Inr b' \<Longrightarrow>
   length b' = length b \<and> (\<forall>i<length b. int i \<noteq> y \<longrightarrow> b' ! i = b ! i)"
  by (auto simp: setCell_def Let_def split: if_splits)

lemma placeRow_other_rows:
  "placeRow b v x newY cs = Inr b' \<Longrightarrow>
   length b' = length b \<and> (\<forall>i<length b. int i \<noteq> newY \<longrightarrow> b' ! i = b ! i)"
proof (induction cs arbitrary: b x)
  case Nil
  then show ?case by simp
next
  case (Cons c cs)
  show ?case
  proof (cases "c \<noteq> 0 \<and> newY \<ge> 0")
    case True
    with Cons.prems obtain b1 where b1: "setCell b newY x v = Inr b1"
      "placeRow b1 v (x + 1) newY cs = Inr b'"
      by (auto split: sum.splits)
    from setCell_other_rows [OF b1(1)] Cons.IH [OF b1(2)] show ?thesis by simp
  next
    case False
    with Cons.prems have "placeRow b v (x + 1) newY cs = Inr b'"
      by (auto split: if_splits)
    from Cons.IH [OF this] show ?thesis .
  qed
qed

lemma placeRows_other_rows:
  "placeRows b v x y piece = Inr b' \<Longrightarrow>
   length b' = length b \<and>
   (\<forall>i<length b. \<not> (y \<le> int i \<and> int i < y + int (length piece)) \<longrightarrow> b' ! i = b ! i)"
proof (induction piece arbitrary: b y)
  case Nil
  then show ?case by simp
next
  case (Cons row rows)
  from Cons.prems obtain b1 where b1: "placeRow b v x y row = Inr b1"
    "placeRows b1 v x (y + 1) rows = Inr b'"
    by (auto split: sum.splits)
  from placeRow_other_rows [OF b1(1)] Cons.IH [OF b1(2)] show ?case by auto
qed

lemma full_rows_after_placement:
  assumes "noFullRow b" and "placeRows b v x y piece = Inr b'"
  shows "length (filter rowFull b') \<le> length piece"
proof -
  from placeRows_other_rows [OF assms(2)]
  have len: "length b' = length b"
    and same: "\<And>i. i < length b \<Longrightarrow> \<not> (y \<le> int i \<and> int i < y + int (length piece)) \<Longrightarrow> b' ! i = b ! i"
    by simp_all
  have "{i. i < length b' \<and> rowFull (b' ! i)} \<subseteq> {i. y \<le> int i \<and> int i < y + int (length piece)}"
  proof
    fix i assume "i \<in> {i. i < length b' \<and> rowFull (b' ! i)}"
    then have i: "i < length b" "rowFull (b' ! i)" by (simp_all add: len)
    from i(1) assms(1) have "\<not> rowFull (b ! i)" by (simp add: noFullRow_def)
    with i(2) have "b' ! i \<noteq> b ! i" by auto
    with same [OF i(1)] have "y \<le> int i \<and> int i < y + int (length piece)" by blast
    then show "i \<in> {i. y \<le> int i \<and> int i < y + int (length piece)}" by simp
  qed
  also have "\<dots> \<subseteq> (\<lambda>k. nat (y + int k)) ` {..<length piece}"
  proof
    fix i assume "i \<in> {i. y \<le> int i \<and> int i < y + int (length piece)}"
    then have "nat (int i - y) < length piece" "i = nat (y + int (nat (int i - y)))" by auto
    then show "i \<in> (\<lambda>k. nat (y + int k)) ` {..<length piece}" by blast
  qed
  finally have "card {i. i < length b' \<and> rowFull (b' ! i)}
      \<le> card ((\<lambda>k. nat (y + int k)) ` {..<length piece})"
    by (intro card_mono) auto
  also have "\<dots> \<le> card {..<length piece}" by (intro card_image_le) simp
  finally show ?thesis by (simp add: length_filter_conv_card)
qed

lemma shapes_rows_le_4: "piece \<in> set (shapes t) \<Longrightarrow> length piece \<le> 4"
  by (cases t) auto

text \<open>
  Claim C5, as the code has it. On a board of 20 rows the loop of \<open>clearLines\<close> returns:
  the rows in which every cell is not \<open>null\<close> are removed, one empty row is put on top
  for each of them, the other rows keep their order, and the count is the number of rows
  removed. A row that is kept moves down by the number of full rows \<^emph>\<open>below\<close> it. When the
  board results from writing one piece of the catalogue into a board without a full row,
  the count is at most 4.
\<close>

theorem clearLines_rows:
  assumes "length b = 20"
  shows "clearLoop 20 b 0 =
           Inr (replicate (length (filter rowFull b)) emptyRow @ filter (\<lambda>r. \<not> rowFull r) b,
                length (filter rowFull b)) \<and>
         (\<forall>i<20. \<not> rowFull (b ! i) \<longrightarrow>
            (replicate (length (filter rowFull b)) emptyRow @ filter (\<lambda>r. \<not> rowFull r) b)
              ! (i + length (filter rowFull (drop (Suc i) b))) = b ! i) \<and>
         (\<forall>b0 v x y t piece.
            noFullRow b0 \<and> piece \<in> set (shapes t) \<and> placeRows b0 v x y piece = Inr b \<longrightarrow>
            length (filter rowFull b) \<le> 4)"
proof (intro conjI allI impI)
  show "clearLoop 20 b 0 =
           Inr (replicate (length (filter rowFull b)) emptyRow @ filter (\<lambda>r. \<not> rowFull r) b,
                length (filter rowFull b))"
    using assms by (rule clearLoop_20)
next
  fix i :: nat
  assume "i < 20" "\<not> rowFull (b ! i)"
  with assms show "(replicate (length (filter rowFull b)) emptyRow @ filter (\<lambda>r. \<not> rowFull r) b)
              ! (i + length (filter rowFull (drop (Suc i) b))) = b ! i"
    by (intro kept_row_position) simp_all
next
  fix b0 v x y t piece
  assume a: "noFullRow b0 \<and> piece \<in> set (shapes t) \<and> placeRows b0 v x y piece = Inr b"
  then have "length (filter rowFull b) \<le> length piece"
    by (intro full_rows_after_placement [of b0 v x y]) simp_all
  also from a have "\<dots> \<le> 4" by (intro shapes_rows_le_4 [of _ t]) simp
  finally show "length (filter rowFull b) \<le> 4" .
qed

lemma stacked_cleared:
  "clearLoop 20 stackedBoard 0 =
     Inr (replicate 18 emptyRow @ [Tag PieceJ # replicate 9 Null, Tag PieceL # replicate 9 Null], 1)"
  by code_simp

text \<open>
  The shift as claim C5 states it, by the number of full rows removed above a row, fails:
  with row 18 full, row 19 has one full row above it and stays at index 19, and row 17 has
  none above it and moves to index 18.
\<close>

theorem clearLines_shift_counterexample:
  "length stackedBoard = 20 \<and>
   \<not> rowFull (stackedBoard ! 19) \<and>
   length (filter rowFull (take 19 stackedBoard)) = 1 \<and>
   clearLoop 20 stackedBoard 0 =
     Inr (replicate 18 emptyRow @ [Tag PieceJ # replicate 9 Null, Tag PieceL # replicate 9 Null], 1) \<and>
   (replicate 18 emptyRow @ [Tag PieceJ # replicate 9 Null, Tag PieceL # replicate 9 Null]) ! 19
     = stackedBoard ! 19 \<and>
   \<not> rowFull (stackedBoard ! 17) \<and>
   length (filter rowFull (take 17 stackedBoard)) = 0 \<and>
   (replicate 18 emptyRow @ [Tag PieceJ # replicate 9 Null, Tag PieceL # replicate 9 Null]) ! 17
     \<noteq> stackedBoard ! 17 \<and>
   (replicate 18 emptyRow @ [Tag PieceJ # replicate 9 Null, Tag PieceL # replicate 9 Null]) ! 18
     = stackedBoard ! 17"
  by code_simp

theorem clearLines_rows_witness:
  "length stackedBoard = 20 \<and> \<not> rowFull (stackedBoard ! 17) \<and>
   noFullRow gapBoard \<and> [[1,1,1,1]] \<in> set (shapes PieceI) \<and>
   placeRows gapBoard (Tag PieceI) 6 18 [[1,1,1,1]] = Inr stackedBoard \<and>
   clearLoop 20 stackedBoard 0 =
     Inr (replicate (length (filter rowFull stackedBoard)) emptyRow
            @ filter (\<lambda>r. \<not> rowFull r) stackedBoard,
          length (filter rowFull stackedBoard)) \<and>
   (replicate (length (filter rowFull stackedBoard)) emptyRow
      @ filter (\<lambda>r. \<not> rowFull r) stackedBoard)
     ! (17 + length (filter rowFull (drop (Suc 17) stackedBoard))) = stackedBoard ! 17 \<and>
   length (filter rowFull stackedBoard) \<le> 4"
proof -
  have h1: "length stackedBoard = 20" by (simp add: stackedBoard_def)
  have h2: "\<not> rowFull (stackedBoard ! 17)" by code_simp
  have h3: "noFullRow gapBoard" by code_simp
  have h4: "[[1,1,1,1]] \<in> set (shapes PieceI)" by simp
  have h5: "placeRows gapBoard (Tag PieceI) 6 18 [[1,1,1,1]] = Inr stackedBoard" by code_simp
  note inst = clearLines_rows [OF h1]
  from inst have c1: "clearLoop 20 stackedBoard 0 =
     Inr (replicate (length (filter rowFull stackedBoard)) emptyRow
            @ filter (\<lambda>r. \<not> rowFull r) stackedBoard,
          length (filter rowFull stackedBoard))" by (rule conjunct1)
  from inst have "\<forall>i<20. \<not> rowFull (stackedBoard ! i) \<longrightarrow>
     (replicate (length (filter rowFull stackedBoard)) emptyRow
        @ filter (\<lambda>r. \<not> rowFull r) stackedBoard)
       ! (i + length (filter rowFull (drop (Suc i) stackedBoard))) = stackedBoard ! i"
    by (elim conjE)
  then have "(17::nat) < 20 \<longrightarrow> \<not> rowFull (stackedBoard ! 17) \<longrightarrow>
     (replicate (length (filter rowFull stackedBoard)) emptyRow
        @ filter (\<lambda>r. \<not> rowFull r) stackedBoard)
       ! (17 + length (filter rowFull (drop (Suc 17) stackedBoard))) = stackedBoard ! 17"
    by (rule spec)
  with h2 have c2: "(replicate (length (filter rowFull stackedBoard)) emptyRow
      @ filter (\<lambda>r. \<not> rowFull r) stackedBoard)
     ! (17 + length (filter rowFull (drop (Suc 17) stackedBoard))) = stackedBoard ! 17"
    by simp
  from inst h3 h4 h5 have c3: "length (filter rowFull stackedBoard) \<le> 4"
    by blast
  from h1 h2 h3 h4 h5 c1 c2 c3 show ?thesis by (intro conjI)
qed

section \<open>Moves, rotation, locking and spawning preserve the invariant\<close>

lemma checkCollision_hits:
  "boardOK (board g) \<Longrightarrow> checkCollision g x y (Some piece) = Inr (hits (board g) x y piece)"
  by (simp add: checkCollision_def checkRows_hits)

lemma movePiece_result:
  assumes "boardOK (board g)" and "currentPiece g = Some piece"
  shows "movePiece dx dy g =
           (if hits (board g) (currentX g + dx) (currentY g + dy) piece
            then Inr (False, g)
            else Inr (True, g\<lparr>currentX := currentX g + dx, currentY := currentY g + dy\<rparr>))"
  using assms by (simp add: movePiece_def checkCollision_hits)

lemma shapes_nonempty: "shapes t \<noteq> []"
  by (cases t) simp_all

lemma rotation_in_range: "(r + 1) mod length (shapes t) < length (shapes t)"
  using shapes_nonempty [of t] by simp

lemma rotatePiece_result:
  assumes "boardOK (board g)" and "currentType g = Some t"
  shows "rotatePiece g =
           (let r = (currentRotation g + 1) mod length (shapes t)
            in if hits (board g) (currentX g) (currentY g) (shapes t ! r)
               then Inr (False, g)
               else Inr (True, g\<lparr>currentRotation := r, currentPiece := Some (shapes t ! r)\<rparr>))"
  using assms by (simp add: rotatePiece_def checkCollision_hits Let_def)

lemma gameInv_movePiece:
  assumes "gameInv g" and "state g = PLAYING" and "movePiece dx dy g = Inr (ok, g')"
  shows "gameInv g' \<and> state g' = PLAYING"
proof -
  from assms(1,2) have ok: "boardOK (board g)" "pieceOK g" by (simp_all add: gameInv_def)
  then obtain t where t: "currentType g = Some t" "currentRotation g < length (shapes t)"
    "currentPiece g = Some (shapes t ! currentRotation g)"
    by (auto simp: pieceOK_def)
  from assms(3) movePiece_result [OF ok(1) t(3), of dx dy]
  have "g' = g \<or> (\<not> hits (board g) (currentX g + dx) (currentY g + dy) (shapes t ! currentRotation g)
      \<and> g' = g\<lparr>currentX := currentX g + dx, currentY := currentY g + dy\<rparr>)"
    by (auto split: if_splits)
  then show ?thesis
  proof
    assume "g' = g"
    with assms show ?thesis by simp
  next
    assume "\<not> hits (board g) (currentX g + dx) (currentY g + dy) (shapes t ! currentRotation g)
      \<and> g' = g\<lparr>currentX := currentX g + dx, currentY := currentY g + dy\<rparr>"
    then have "fits (currentX g + dx) (currentY g + dy) (shapes t ! currentRotation g)"
      and "g' = g\<lparr>currentX := currentX g + dx, currentY := currentY g + dy\<rparr>"
      by (auto intro: not_hits_fits)
    with assms(1,2) t ok(2) show ?thesis
      by (auto simp: gameInv_def pieceOK_def statsOK_def)
  qed
qed

lemma movePiece_succeeds:
  assumes "gameInv g" and "state g = PLAYING"
  shows "\<exists>ok g'. movePiece dx dy g = Inr (ok, g')"
proof -
  from assms have ok: "boardOK (board g)" "pieceOK g" by (simp_all add: gameInv_def)
  then obtain piece where "currentPiece g = Some piece" by (auto simp: pieceOK_def)
  from movePiece_result [OF ok(1) this, of dx dy] show ?thesis by auto
qed

lemma gameInv_rotatePiece:
  assumes "gameInv g" and "state g = PLAYING" and "rotatePiece g = Inr (ok, g')"
  shows "gameInv g' \<and> state g' = PLAYING"
proof -
  from assms(1,2) have ok: "boardOK (board g)" "pieceOK g" by (simp_all add: gameInv_def)
  then obtain t where t: "currentType g = Some t" by (auto simp: pieceOK_def)
  let ?r = "(currentRotation g + 1) mod length (shapes t)"
  from assms(3) rotatePiece_result [OF ok(1) t]
  have "g' = g \<or> (\<not> hits (board g) (currentX g) (currentY g) (shapes t ! ?r)
      \<and> g' = g\<lparr>currentRotation := ?r, currentPiece := Some (shapes t ! ?r)\<rparr>)"
    by (auto simp: Let_def split: if_splits)
  then show ?thesis
  proof
    assume "g' = g"
    with assms show ?thesis by simp
  next
    assume "\<not> hits (board g) (currentX g) (currentY g) (shapes t ! ?r)
      \<and> g' = g\<lparr>currentRotation := ?r, currentPiece := Some (shapes t ! ?r)\<rparr>"
    then have "fits (currentX g) (currentY g) (shapes t ! ?r)"
      and "g' = g\<lparr>currentRotation := ?r, currentPiece := Some (shapes t ! ?r)\<rparr>"
      by (auto intro: not_hits_fits)
    with assms(1,2) t ok(2) rotation_in_range [of "currentRotation g" t] show ?thesis
      by (auto simp: gameInv_def pieceOK_def statsOK_def)
  qed
qed

lemma rotatePiece_succeeds:
  assumes "gameInv g" and "state g = PLAYING"
  shows "\<exists>ok g'. rotatePiece g = Inr (ok, g')"
proof -
  from assms have ok: "boardOK (board g)" "pieceOK g" by (simp_all add: gameInv_def)
  then obtain t where "currentType g = Some t" by (auto simp: pieceOK_def)
  from rotatePiece_result [OF ok(1) this] show ?thesis by (auto simp: Let_def)
qed

lemma clearLines_result:
  assumes "length (board g) = 20" and "length (filter rowFull (board g)) \<le> 4"
  shows "clearLines g = Inr (cleared g)"
  using assms by (simp add: clearLines_def clearLoop_20 Let_def scoreValues_def cleared_def)

lemma boardOK_cleared:
  assumes "boardOK b"
  shows "boardOK (replicate (length (filter rowFull b)) emptyRow @ filter (\<lambda>r. \<not> rowFull r) b)"
proof -
  have "length (filter rowFull b) + length (filter (\<lambda>r. \<not> rowFull r) b) = 20"
    using sum_length_filter_compl [of rowFull b] assms by (simp add: boardOK_def)
  moreover have "length emptyRow = 10 \<and> (\<forall>c\<in>set emptyRow. c \<noteq> Undefined)"
    by (simp add: emptyRow_def)
  ultimately show ?thesis
    using assms by (auto simp: boardOK_def)
qed

lemma noFullRow_cleared:
  "noFullRow (replicate (length (filter rowFull b)) emptyRow @ filter (\<lambda>r. \<not> rowFull r) b)"
  by (auto simp: noFullRow_def not_full_emptyRow)

lemma cleared_board:
  "board (cleared g) =
     replicate (length (filter rowFull (board g))) emptyRow @ filter (\<lambda>r. \<not> rowFull r) (board g)"
  by (simp add: cleared_def Let_def)

lemma cleared_fields:
  "state (cleared g) = state g" "player (cleared g) = player g"
  "currentPiece (cleared g) = currentPiece g" "currentType (cleared g) = currentType g"
  "nextType (cleared g) = nextType g" "currentRotation (cleared g) = currentRotation g"
  "currentX (cleared g) = currentX g" "currentY (cleared g) = currentY g"
  by (simp_all add: cleared_def Let_def)

lemma dropTime_antimono:
  "(l::int) \<le> l' \<Longrightarrow> max 100 (1000 - (l' - 1) * 100) \<le> max 100 (1000 - (l - 1) * 100)"
  by simp

lemma statsOK_cleared:
  assumes "statsOK g"
  shows "statsOK (cleared g) \<and> lines g \<le> lines (cleared g) \<and> level g \<le> level (cleared g) \<and>
         dropTime (cleared g) \<le> dropTime g"
proof (cases "length (filter rowFull (board g)) > 0")
  case True
  let ?n = "int (length (filter rowFull (board g)))"
  from True have f: "lines (cleared g) = lines g + ?n"
    "level (cleared g) = (lines g + ?n) div 10 + 1"
    "dropTime (cleared g) = max 100 (1000 - ((lines g + ?n) div 10 + 1 - 1) * 100)"
    by (simp_all add: cleared_def Let_def)
  from assms have g: "0 \<le> lines g" "level g = lines g div 10 + 1"
    "dropTime g = max 100 (1000 - (level g - 1) * 100)"
    by (simp_all add: statsOK_def)
  have mono: "lines g div 10 \<le> (lines g + ?n) div 10"
    by (intro zdiv_mono1) simp_all
  then have lv: "level g \<le> level (cleared g)" by (simp add: f g)
  have dt: "dropTime (cleared g) \<le> dropTime g"
    using dropTime_antimono [OF lv] by (simp add: f g)
  from f g lv dt show ?thesis by (simp add: statsOK_def)
next
  case False
  then have "lines (cleared g) = lines g" "level (cleared g) = level g"
    "dropTime (cleared g) = dropTime g"
    by (simp_all add: cleared_def Let_def)
  with assms show ?thesis by (simp add: statsOK_def)
qed

lemma cleared_lines:
  "lines (cleared g) = lines g + int (length (filter rowFull (board g)))"
  "level (cleared g) = (if 0 < length (filter rowFull (board g))
       then (lines g + int (length (filter rowFull (board g)))) div 10 + 1 else level g)"
  by (simp_all add: cleared_def Let_def)

lemma spawn_fits:
  "fits ((10 - int (length (shapes t ! 0 ! 0))) div 2) 0 (shapes t ! 0)"
  by (cases t) (simp_all add: fits_def fitsRow_def All_less_Suc)

text \<open>The world after the assignments of \<open>spawnPiece\<close>, before its collision test.\<close>

lemma spawnPiece_unfold:
  assumes "boardOK (board (this w))" and "nextType (this w) = Some t"
  shows "spawnPiece w =
     (let g = (this w)\<lparr>currentType := Some t, nextType := Some (shd (random w)),
                       currentRotation := 0, currentPiece := Some (shapes t ! 0),
                       currentX := (10 - int (length (shapes t ! 0 ! 0))) div 2, currentY := 0\<rparr>;
          w3 = w\<lparr>this := g, random := stl (random w)\<rparr>
      in if hits (board (this w)) (currentX g) 0 (shapes t ! 0)
         then (case updateHighScore (clockISO w) (player (this w)) (score (this w))
                      (level (this w)) (lines (this w)) (globals w) of
                 Inl e \<Rightarrow> Inl (e, w3)
               | Inr (rank, st') \<Rightarrow> Inr (setState GAME_OVER (w3\<lparr>globals := st'\<rparr>)))
         else Inr w3)"
  using assms
  by (simp add: spawnPiece_def spawnNextPiece_def Let_def checkCollision_hits setState_def
      split: sum.splits)

lemma updateHighScore_error: "updateHighScore now p sc lv ln st = Inl e \<Longrightarrow> e = TypeError"
  by (cases e) (auto simp: updateHighScore_def Let_def split: option.splits)

lemma spawnPiece_leaves:
  assumes "boardOK (board (this w))" and "nextType (this w) = Some t"
  shows "\<exists>w'. leaves (spawnPiece w) w'"
proof -
  let ?u = "updateHighScore (clockISO w) (player (this w)) (score (this w))
                      (level (this w)) (lines (this w)) (globals w)"
  show ?thesis
  proof (cases ?u)
    case (Inl e)
    with updateHighScore_error [OF Inl] show ?thesis
      by (auto simp: spawnPiece_unfold [OF assms] Let_def leaves_def)
  next
    case (Inr r)
    then show ?thesis
      by (cases r) (auto simp: spawnPiece_unfold [OF assms] Let_def leaves_def)
  qed
qed

lemma spawnPiece_result:
  assumes "boardOK (board (this w))" and "nextType (this w) = Some t"
    and "leaves (spawnPiece w) w'"
  shows "board (this w') = board (this w) \<and> lines (this w') = lines (this w) \<and>
         level (this w') = level (this w) \<and> dropTime (this w') = dropTime (this w) \<and>
         score (this w') = score (this w) \<and> pieceOK (this w') \<and>
         (state (this w') = state (this w) \<or> state (this w') = GAME_OVER)"
proof -
  let ?x = "(10 - int (length (shapes t ! 0 ! 0))) div 2"
  let ?g = "(this w)\<lparr>currentType := Some t, nextType := Some (shd (random w)),
                       currentRotation := 0, currentPiece := Some (shapes t ! 0),
                       currentX := ?x, currentY := 0\<rparr>"
  let ?w3 = "w\<lparr>this := ?g, random := stl (random w)\<rparr>"
  have pos: "0 < length (shapes t)"
    using shapes_nonempty [of t] by simp
  have p: "pieceOK ?g"
    using pos spawn_fits [of t] by (simp add: pieceOK_def)
  from assms(3) spawnPiece_unfold [OF assms(1,2)]
  have "w' = ?w3 \<or> (\<exists>st'. w' = setState GAME_OVER (?w3\<lparr>globals := st'\<rparr>))"
    by (auto simp: Let_def leaves_def split: if_splits sum.splits)
  then show ?thesis
  proof
    assume "w' = ?w3"
    with p show ?thesis by simp
  next
    assume "\<exists>st'. w' = setState GAME_OVER (?w3\<lparr>globals := st'\<rparr>)"
    then obtain st' where "w' = setState GAME_OVER (?w3\<lparr>globals := st'\<rparr>)" ..
    with p show ?thesis by (simp add: setState_def pieceOK_def)
  qed
qed

lemma spawnPiece_succeeds:
  assumes "boardOK (board (this w))" and "nextType (this w) = Some t"
    and "playerData (globals w) (ident (player (this w))) = Some info"
  shows "\<exists>w'. spawnPiece w = Inr w'"
proof -
  from updateHighScore_succeeds [OF assms(3)]
  obtain rank st' where "updateHighScore (clockISO w) (player (this w)) (score (this w))
                      (level (this w)) (lines (this w)) (globals w) = Inr (rank, st')"
    by blast
  then show ?thesis
    by (simp add: spawnPiece_unfold [OF assms(1,2)] Let_def)
qed

text \<open>Locking a piece in a game that satisfies the invariant.\<close>

lemma placePiece_unfold:
  assumes "gameInv (this w)" and "state (this w) = PLAYING"
  shows "\<exists>b. writePiece (this w) = Inr b \<and> boardOK b \<and> length (filter rowFull b) \<le> 4 \<and>
             clearLines ((this w)\<lparr>board := b\<rparr>) = Inr (cleared ((this w)\<lparr>board := b\<rparr>)) \<and>
             placePiece w = spawnPiece (w\<lparr>this := cleared ((this w)\<lparr>board := b\<rparr>)\<rparr>)"
proof -
  let ?g = "this w"
  from assms have ok: "boardOK (board ?g)" "noFullRow (board ?g)" "pieceOK ?g"
    by (simp_all add: gameInv_def)
  then obtain t where t: "currentType ?g = Some t" "currentRotation ?g < length (shapes t)"
    "currentPiece ?g = Some (shapes t ! currentRotation ?g)"
    "fits (currentX ?g) (currentY ?g) (shapes t ! currentRotation ?g)"
    by (auto simp: pieceOK_def)
  let ?piece = "shapes t ! currentRotation ?g"
  from placeRows_boardOK [OF ok(1) t(4), of "Tag t"]
  obtain b where b: "placeRows (board ?g) (Tag t) (currentX ?g) (currentY ?g) ?piece = Inr b"
    "boardOK b" by auto
  from b(1) t have wp: "writePiece ?g = Inr b" by (simp add: writePiece_def)
  from t(2) have "?piece \<in> set (shapes t)" by simp
  then have "length ?piece \<le> 4" by (rule shapes_rows_le_4)
  with full_rows_after_placement [OF ok(2) b(1)] have full: "length (filter rowFull b) \<le> 4"
    by simp
  from b(2) have "length b = 20" by (simp add: boardOK_def)
  with full have cl: "clearLines (?g\<lparr>board := b\<rparr>) = Inr (cleared (?g\<lparr>board := b\<rparr>))"
    by (intro clearLines_result) simp_all
  with wp have "placePiece w = spawnPiece (w\<lparr>this := cleared (?g\<lparr>board := b\<rparr>)\<rparr>)"
    by (simp add: placePiece_def Let_def)
  with wp b(2) full cl show ?thesis by blast
qed

lemma placePiece_leaves:
  assumes "gameInv (this w)" and "state (this w) = PLAYING"
  shows "\<exists>w'. leaves (placePiece w) w'"
proof -
  let ?g = "this w"
  from placePiece_unfold [OF assms] obtain b where b: "boardOK b"
    "placePiece w = spawnPiece (w\<lparr>this := cleared (?g\<lparr>board := b\<rparr>)\<rparr>)"
    by blast
  let ?c = "cleared (?g\<lparr>board := b\<rparr>)"
  from assms obtain t where "nextType ?g = Some t"
    by (auto simp: gameInv_def pieceOK_def)
  then have nt: "nextType (this (w\<lparr>this := ?c\<rparr>)) = Some t"
    by (simp add: cleared_fields)
  have cb: "boardOK (board (this (w\<lparr>this := ?c\<rparr>)))"
    using b(1) by (simp add: cleared_board boardOK_cleared)
  from spawnPiece_leaves [OF cb nt] b(2) show ?thesis by simp
qed

lemma placePiece_inv:
  assumes "gameInv (this w)" and "state (this w) = PLAYING" and "leaves (placePiece w) w'"
  shows "gameInv (this w') \<and> (state (this w') = PLAYING \<or> state (this w') = GAME_OVER) \<and>
         lines (this w) \<le> lines (this w') \<and> level (this w) \<le> level (this w') \<and>
         dropTime (this w') \<le> dropTime (this w) \<and>
         (\<exists>b. writePiece (this w) = Inr b \<and> boardOK b \<and>
              this w' = (this w')\<lparr>board := board (cleared ((this w)\<lparr>board := b\<rparr>))\<rparr> \<and>
              board (this w') = board (cleared ((this w)\<lparr>board := b\<rparr>)) \<and>
              lines (this w') = lines (this w) + int (length (filter rowFull b)) \<and>
              score (this w') = score (cleared ((this w)\<lparr>board := b\<rparr>)))"
proof -
  let ?g = "this w"
  from placePiece_unfold [OF assms(1,2)] obtain b where b: "writePiece ?g = Inr b" "boardOK b"
    "length (filter rowFull b) \<le> 4"
    "placePiece w = spawnPiece (w\<lparr>this := cleared (?g\<lparr>board := b\<rparr>)\<rparr>)"
    by blast
  let ?c = "cleared (?g\<lparr>board := b\<rparr>)"
  from assms(1) have st: "statsOK (?g\<lparr>board := b\<rparr>)" by (simp add: gameInv_def statsOK_def)
  from assms(1,2) obtain t where t: "nextType ?g = Some t"
    by (auto simp: gameInv_def pieceOK_def)
  have cb: "boardOK (board ?c)" "noFullRow (board ?c)"
    using b(2) by (simp_all add: cleared_board boardOK_cleared noFullRow_cleared)
  from t have nt: "nextType (this (w\<lparr>this := ?c\<rparr>)) = Some t"
    by (simp add: cleared_fields)
  from assms(3) b(4) have sp: "leaves (spawnPiece (w\<lparr>this := ?c\<rparr>)) w'" by simp
  from spawnPiece_result [OF _ nt sp] cb(1)
  have r: "board (this w') = board ?c" "lines (this w') = lines ?c" "level (this w') = level ?c"
    "dropTime (this w') = dropTime ?c" "score (this w') = score ?c" "pieceOK (this w')"
    "state (this w') = state ?c \<or> state (this w') = GAME_OVER"
    by simp_all
  from statsOK_cleared [OF st] have sc: "statsOK ?c" "lines ?g \<le> lines ?c" "level ?g \<le> level ?c"
    "dropTime ?c \<le> dropTime ?g"
    by simp_all
  from r sc(1) have s': "statsOK (this w')" by (simp add: statsOK_def)
  from r(7) assms(2) have st': "state (this w') = PLAYING \<or> state (this w') = GAME_OVER"
    by (auto simp: cleared_fields)
  have inv: "gameInv (this w')"
    using r(1,6) cb s' by (simp add: gameInv_def)
  have ln: "lines (this w') = lines ?g + int (length (filter rowFull b))"
    using r(2) by (simp add: cleared_lines)
  have "\<exists>b. writePiece ?g = Inr b \<and> boardOK b \<and>
              this w' = (this w')\<lparr>board := board (cleared (?g\<lparr>board := b\<rparr>))\<rparr> \<and>
              board (this w') = board (cleared (?g\<lparr>board := b\<rparr>)) \<and>
              lines (this w') = lines ?g + int (length (filter rowFull b)) \<and>
              score (this w') = score (cleared (?g\<lparr>board := b\<rparr>))"
    using b(1,2) r(1,5) ln by (intro exI [of _ b]) simp
  with inv st' r(2-4) sc(2-4) show ?thesis by simp
qed

lemma placePiece_succeeds:
  assumes "gameInv (this w)" and "state (this w) = PLAYING"
    and "playerData (globals w) (ident (player (this w))) = Some info"
  shows "\<exists>w'. placePiece w = Inr w'"
proof -
  let ?g = "this w"
  from placePiece_unfold [OF assms(1,2)] obtain b where b: "boardOK b"
    "placePiece w = spawnPiece (w\<lparr>this := cleared (?g\<lparr>board := b\<rparr>)\<rparr>)"
    by blast
  let ?c = "cleared (?g\<lparr>board := b\<rparr>)"
  from assms(1,2) obtain t where "nextType ?g = Some t"
    by (auto simp: gameInv_def pieceOK_def)
  then have nt: "nextType (this (w\<lparr>this := ?c\<rparr>)) = Some t"
    by (simp add: cleared_fields)
  have cb: "boardOK (board (this (w\<lparr>this := ?c\<rparr>)))"
    using b(1) by (simp add: cleared_board boardOK_cleared)
  have pd: "playerData (globals (w\<lparr>this := ?c\<rparr>)) (ident (player (this (w\<lparr>this := ?c\<rparr>)))) = Some info"
    using assms(3) by (simp add: cleared_fields)
  from spawnPiece_succeeds [OF cb nt pd] b(2) show ?thesis by simp
qed

section \<open>The hard drop\<close>

lemma checkRow_floor:
  "px < length cs \<Longrightarrow> cs ! px \<noteq> 0 \<Longrightarrow> 20 \<le> newY \<Longrightarrow> checkRow b x newY cs = Inr True"
proof (induction cs arbitrary: x px)
  case Nil
  then show ?case by simp
next
  case (Cons c cs)
  show ?case
  proof (cases "c = 0")
    case True
    with Cons.prems obtain k where k: "px = Suc k" by (cases px) auto
    with Cons.prems have "k < length cs" "cs ! k \<noteq> 0" by simp_all
    from Cons.IH [OF this Cons.prems(3)] True show ?thesis by simp
  next
    case False
    with Cons.prems(3) show ?thesis by simp
  qed
qed

lemma checkRows_floor:
  "py < length piece \<Longrightarrow> px < length (piece ! py) \<Longrightarrow> piece ! py ! px \<noteq> 0 \<Longrightarrow>
   20 \<le> y + int py \<Longrightarrow> checkRows b x y piece \<noteq> Inr False"
proof (induction piece arbitrary: y py)
  case Nil
  then show ?case by simp
next
  case (Cons row rows)
  show ?case
  proof (cases py)
    case 0
    with Cons.prems have "checkRow b x y row = Inr True"
      by (intro checkRow_floor [of px]) simp_all
    then show ?thesis by simp
  next
    case (Suc k)
    with Cons.prems have "checkRows b x (y + 1) rows \<noteq> Inr False"
      by (intro Cons.IH [of k]) simp_all
    then show ?thesis by (auto split: sum.splits)
  qed
qed

lemma movePiece_down_cases:
  "(\<exists>e. movePiece 0 1 g = Inl e) \<or> movePiece 0 1 g = Inr (False, g) \<or>
   (movePiece 0 1 g = Inr (True, g\<lparr>currentX := currentX g + 0, currentY := currentY g + 1\<rparr>) \<and>
    checkCollision g (currentX g + 0) (currentY g + 1) (currentPiece g) = Inr False)"
  by (auto simp: movePiece_def split: sum.splits)

lemma movePiece_floor:
  assumes "currentPiece g = Some piece" "py < length piece" "px < length (piece ! py)"
    "piece ! py ! px \<noteq> 0" "19 \<le> currentY g + int py"
  shows "checkCollision g x (currentY g + 1) (currentPiece g) \<noteq> Inr False"
proof -
  from assms(5) have "20 \<le> currentY g + 1 + int py" by simp
  from checkRows_floor [OF assms(2-4) this] assms(1) show ?thesis
    by (simp add: checkCollision_def)
qed

lemma hardDropLoop_terminates_aux:
  assumes "currentPiece g = Some piece" "py < length piece" "px < length (piece ! py)"
    "piece ! py ! px \<noteq> 0" "nat (19 - (currentY g + int py)) = k"
  shows "\<exists>r. hardDropLoop g dropped = Some r \<and>
           (\<forall>n g'. r = Inr (n, g') \<longrightarrow>
              dropped \<le> n \<and> n - dropped \<le> int k \<and> currentY g' = currentY g + (n - dropped))"
  using assms
proof (induction k arbitrary: g dropped)
  case 0
  then have "19 \<le> currentY g + int py" by simp
  from movePiece_floor [OF "0.prems"(1-4) this] movePiece_down_cases [of g]
  have "(\<exists>e. movePiece 0 1 g = Inl e) \<or> movePiece 0 1 g = Inr (False, g)"
    by auto
  then show ?case
    by (subst hardDropLoop.simps) auto
next
  case (Suc k)
  from movePiece_down_cases [of g] show ?case
  proof (elim disjE exE conjE)
    fix e assume "movePiece 0 1 g = Inl e"
    then show ?thesis by (subst hardDropLoop.simps) simp
  next
    assume "movePiece 0 1 g = Inr (False, g)"
    then show ?thesis by (subst hardDropLoop.simps) simp
  next
    let ?g = "g\<lparr>currentX := currentX g + 0, currentY := currentY g + 1\<rparr>"
    assume mv: "movePiece 0 1 g = Inr (True, ?g)"
    from Suc.prems have "currentPiece ?g = Some piece"
      and "nat (19 - (currentY ?g + int py)) = k"
      by simp_all
    from Suc.IH [OF this(1) Suc.prems(2-4) this(2), of "dropped + 1"]
    obtain r where r: "hardDropLoop ?g (dropped + 1) = Some r"
      "\<forall>n g'. r = Inr (n, g') \<longrightarrow>
          dropped + 1 \<le> n \<and> n - (dropped + 1) \<le> int k \<and> currentY g' = currentY ?g + (n - (dropped + 1))"
      by blast
    have "hardDropLoop g dropped = Some r"
      using mv r(1) by (subst hardDropLoop.simps) simp
    moreover from r(2) have "\<forall>n g'. r = Inr (n, g') \<longrightarrow>
        dropped \<le> n \<and> n - dropped \<le> int (Suc k) \<and> currentY g' = currentY g + (n - dropped)"
      by auto
    ultimately show ?thesis by blast
  qed
qed

text \<open>
  Claim C10. Whatever the board, when the active piece has an occupied cell (every shape
  of the catalogue has four), the loop of \<open>hardDrop\<close> ends: it returns after at most
  \<open>max 0 (19 - (currentY + py))\<close> successful moves, where \<open>py\<close> is the shape row of the
  occupied cell, each of which has increased \<open>currentY\<close> by one. A move to a position
  where the cell would reach row 20 never succeeds.
\<close>

theorem hardDropLoop_terminates:
  assumes "currentPiece g = Some piece"
    and "py < length piece" and "px < length (piece ! py)" and "piece ! py ! px \<noteq> 0"
  shows "\<exists>r. hardDropLoop g dropped = Some r \<and>
           (\<forall>n g'. r = Inr (n, g') \<longrightarrow>
              dropped \<le> n \<and> n - dropped \<le> max 0 (19 - (currentY g + int py)) \<and>
              currentY g' = currentY g + (n - dropped))"
proof -
  have "int (nat (19 - (currentY g + int py))) = max 0 (19 - (currentY g + int py))"
    by simp
  with hardDropLoop_terminates_aux [OF assms refl, of dropped] show ?thesis
    by simp
qed

lemma hardDropLoop_inv:
  assumes "hardDropLoop g dropped = Some (Inr (n, g'))" and "gameInv g" and "state g = PLAYING"
  shows "gameInv g' \<and> state g' = PLAYING"
proof -
  have "gameInv g \<and> state g = PLAYING \<longrightarrow>
        (\<forall>n g'. r = Inr (n, g') \<longrightarrow> gameInv g' \<and> state g' = PLAYING)"
    if "hardDropLoop g dropped = Some r" for r
    using that
  proof (induction g dropped r rule: hardDropLoop.raw_induct [rotated 1, consumes 1])
    case (1 loop g dropped r)
    show ?case
    proof (intro impI allI)
      fix n g'
      assume inv: "gameInv g \<and> state g = PLAYING" and r: "r = Inr (n, g')"
      from movePiece_succeeds [of g 0 1] inv obtain ok g1
        where mv: "movePiece 0 1 g = Inr (ok, g1)" by blast
      from gameInv_movePiece [OF _ _ mv] inv have inv1: "gameInv g1 \<and> state g1 = PLAYING"
        by simp
      show "gameInv g' \<and> state g' = PLAYING"
      proof (cases ok)
        case True
        with "1.hyps" mv have "loop g1 (dropped + 1) = Some r" by simp
        from "1.IH" [OF this] inv1 r show ?thesis by blast
      next
        case False
        with "1.hyps" mv r have "g' = g1" by simp
        with inv1 show ?thesis by simp
      qed
    qed
  qed
  with assms show ?thesis by blast
qed

lemma hardDropLoop_no_error:
  assumes "hardDropLoop g dropped = Some (Inl e)" and "gameInv g" and "state g = PLAYING"
  shows False
proof -
  have "gameInv g \<and> state g = PLAYING \<longrightarrow> (\<forall>e. r \<noteq> Inl e)"
    if "hardDropLoop g dropped = Some r" for r
    using that
  proof (induction g dropped r rule: hardDropLoop.raw_induct [rotated 1, consumes 1])
    case (1 loop g dropped r)
    show ?case
    proof (intro impI allI)
      fix e
      assume inv: "gameInv g \<and> state g = PLAYING"
      from movePiece_succeeds [of g 0 1] inv obtain ok g1
        where mv: "movePiece 0 1 g = Inr (ok, g1)" by blast
      from gameInv_movePiece [OF _ _ mv] inv have inv1: "gameInv g1 \<and> state g1 = PLAYING"
        by simp
      show "r \<noteq> Inl e"
      proof (cases ok)
        case True
        with "1.hyps" mv have "loop g1 (dropped + 1) = Some r" by simp
        from "1.IH" [OF this] inv1 show ?thesis by blast
      next
        case False
        with "1.hyps" mv show ?thesis by auto
      qed
    qed
  qed
  with assms show ?thesis by blast
qed

section \<open>Every reachable world satisfies the invariant\<close>

lemma boardOK_emptyBoard: "boardOK emptyBoard"
  by (simp add: boardOK_def emptyBoard_def emptyRow_def)

lemma noFullRow_emptyBoard: "noFullRow emptyBoard"
  by (simp add: noFullRow_def emptyBoard_def not_full_emptyRow)

lemma cellAt_emptyBoard:
  "0 \<le> y \<Longrightarrow> y < 20 \<Longrightarrow> 0 \<le> x \<Longrightarrow> x < 10 \<Longrightarrow> cellAt emptyBoard y x = Inr Null"
proof -
  assume a: "0 \<le> y" "y < 20" "0 \<le> x" "x < 10"
  then have "nat y < 20" "nat x < 10" by linarith+
  with cellAt_inside(1) [OF boardOK_emptyBoard a] show ?thesis
    by (simp add: emptyBoard_def emptyRow_def)
qed

lemma spawn_on_empty:
  "\<not> hits emptyBoard ((10 - int (length (shapes t ! 0 ! 0))) div 2) 0 (shapes t ! 0)"
proof -
  have "checkRows emptyBoard ((10 - int (length (shapes t ! 0 ! 0))) div 2) 0 (shapes t ! 0)
          = Inr False"
    by (cases t) (simp_all add: cellAt_emptyBoard)
  with checkRows_hits [OF boardOK_emptyBoard] show ?thesis by simp
qed

lemma startGame_result:
  "\<exists>w'. startGame w = Inr w' \<and> gameInv (this w') \<and> state (this w') = PLAYING \<and>
        board (this w') = emptyBoard \<and> score (this w') = 0 \<and> lines (this w') = 0 \<and>
        level (this w') = 1 \<and> dropTime (this w') = 1000"
proof -
  let ?g = "(this w)\<lparr>board := emptyBoard, score := 0, level := 1, lines := 0,
                       dropTime := 1000, lastDrop := clock w\<rparr>"
  let ?w1 = "spawnNextPiece (w\<lparr>this := ?g\<rparr>)"
  let ?t = "shd (random w)"
  have b: "boardOK (board (this ?w1))" and be: "board (this ?w1) = emptyBoard"
    by (simp_all add: spawnNextPiece_def boardOK_emptyBoard)
  have nt: "nextType (this ?w1) = Some ?t"
    by (simp add: spawnNextPiece_def)
  have nohit: "\<not> hits (board (this ?w1)) ((10 - int (length (shapes ?t ! 0 ! 0))) div 2) 0 (shapes ?t ! 0)"
    unfolding be by (rule spawn_on_empty)
  let ?w2 = "?w1\<lparr>this := (this ?w1)\<lparr>currentType := Some ?t,
        nextType := Some (shd (random ?w1)), currentRotation := 0,
        currentPiece := Some (shapes ?t ! 0),
        currentX := (10 - int (length (shapes ?t ! 0 ! 0))) div 2, currentY := 0\<rparr>,
        random := stl (random ?w1)\<rparr>"
  have sp: "spawnPiece ?w1 = Inr ?w2"
    using nohit by (simp add: spawnPiece_unfold [OF b nt] Let_def)
  have sg: "startGame w = Inr (setState PLAYING ?w2)"
    using sp
    by (simp add: startGame_def Let_def startGameLoop_def gameLoop_def setState_def
        spawnNextPiece_def)
  have pos: "0 < length (shapes ?t)"
    using shapes_nonempty [of ?t] by simp
  have "gameInv (this (setState PLAYING ?w2)) \<and> state (this (setState PLAYING ?w2)) = PLAYING \<and>
        board (this (setState PLAYING ?w2)) = emptyBoard \<and> score (this (setState PLAYING ?w2)) = 0 \<and>
        lines (this (setState PLAYING ?w2)) = 0 \<and>
        level (this (setState PLAYING ?w2)) = 1 \<and> dropTime (this (setState PLAYING ?w2)) = 1000"
    using spawn_fits [of ?t] pos
    by (simp add: setState_def gameInv_def statsOK_def pieceOK_def
        boardOK_emptyBoard noFullRow_emptyBoard spawnNextPiece_def)
  with sg show ?thesis by blast
qed

lemma gameInv_setState:
  assumes "gameInv (this w)" and "s = PLAYING \<or> s = PAUSED \<longrightarrow> pieceOK (this w)"
  shows "gameInv (this (setState s w))"
  using assms by (auto simp: gameInv_def setState_def statsOK_def pieceOK_def)

lemma gameInv_setState_other:
  assumes "gameInv (this w)" and "s \<noteq> PLAYING" and "s \<noteq> PAUSED"
  shows "gameInv (this (setState s w))"
  using assms by (intro gameInv_setState) simp_all

lemma gameInv_pieceOK:
  "gameInv g \<Longrightarrow> state g = PLAYING \<or> state g = PAUSED \<Longrightarrow> pieceOK g"
  by (simp add: gameInv_def)

lemma gameInv_score:
  "gameInv g \<Longrightarrow> gameInv (g\<lparr>score := s\<rparr>)"
  by (simp add: gameInv_def statsOK_def pieceOK_def)

lemma gameInv_lastDrop:
  "gameInv g \<Longrightarrow> gameInv (g\<lparr>lastDrop := s\<rparr>)"
  by (simp add: gameInv_def statsOK_def pieceOK_def)

lemma leaves_Inr [simp]: "leaves (Inr w) w' \<longleftrightarrow> w' = w"
  by (auto simp: leaves_def)

lemma leaves_Inl [simp]: "leaves (Inl (e, w)) w' \<longleftrightarrow> e = TypeError \<and> w' = w"
  by (auto simp: leaves_def)

lemma softDrop_inv:
  assumes "gameInv (this w)" and "state (this w) = PLAYING" and "leaves (softDrop w) w'"
  shows "gameInv (this w')"
proof -
  from movePiece_succeeds [OF assms(1,2), of 0 1] obtain ok g
    where mv: "movePiece 0 1 (this w) = Inr (ok, g)" by blast
  from gameInv_movePiece [OF assms(1,2) mv] have g: "gameInv g" "state g = PLAYING" by simp_all
  show ?thesis
  proof (cases ok)
    case True
    with assms(3) mv have "w' = w\<lparr>this := g\<lparr>score := score g + 1\<rparr>\<rparr>"
      by (simp add: softDrop_def)
    with g(1) show ?thesis by (simp add: gameInv_score)
  next
    case False
    with assms(3) mv have "leaves (placePiece (w\<lparr>this := g\<rparr>)) w'"
      by (simp add: softDrop_def)
    from placePiece_inv [OF _ _ this] g show ?thesis by simp
  qed
qed

lemma hardDrop_inv:
  assumes "gameInv (this w)" and "state (this w) = PLAYING" and "hardDrop w = Some r"
    and "leaves r w'"
  shows "gameInv (this w')"
proof -
  from assms(3) obtain q where q: "hardDropLoop (this w) 0 = Some q"
    by (auto simp: hardDrop_def split: option.splits)
  show ?thesis
  proof (cases q)
    case (Inl e)
    with q hardDropLoop_no_error [OF _ assms(1,2)] show ?thesis by blast
  next
    case (Inr p)
    obtain n g where p: "p = (n, g)" by (cases p)
    from hardDropLoop_inv [OF _ assms(1,2)] q Inr p have g: "gameInv g" "state g = PLAYING"
      by simp_all
    from assms(3,4) q Inr p have "leaves (placePiece (w\<lparr>this := g\<lparr>score := score g + n * 2\<rparr>\<rparr>)) w'"
      by (simp add: hardDrop_def)
    from placePiece_inv [OF _ _ this] g show ?thesis by (simp add: gameInv_score)
  qed
qed

lemma discardResult_cases:
  "leaves (discardResult w r) w' \<Longrightarrow> (\<exists>ok g. r = Inr (ok, g) \<and> w' = w\<lparr>this := g\<rparr>) \<or> w' = w"
  by (auto simp: discardResult_def split: sum.splits)

lemma startGame_inv: "leaves (startGame w) w' \<Longrightarrow> gameInv (this w')"
  using startGame_result [of w] by auto

lemma handleGameInput_inv:
  assumes "gameInv (this w)" and "state (this w) = PLAYING"
    and "handleGameInput key w = Some r" and "leaves r w'"
  shows "gameInv (this w')"
proof -
  note mv = gameInv_movePiece [OF assms(1,2)]
  note rt = gameInv_rotatePiece [OF assms(1,2)]
  consider (left) "key = ''a'' \<or> key = arrow (CHR ''d'')"
    | (right) "\<not> (key = ''a'' \<or> key = arrow (CHR ''d''))" "key = ''d'' \<or> key = arrow (CHR ''c'')"
    | (soft) "\<not> (key = ''a'' \<or> key = arrow (CHR ''d''))" "\<not> (key = ''d'' \<or> key = arrow (CHR ''c''))"
        "key = ''s'' \<or> key = arrow (CHR ''b'')"
    | (rot) "\<not> (key = ''a'' \<or> key = arrow (CHR ''d''))" "\<not> (key = ''d'' \<or> key = arrow (CHR ''c''))"
        "\<not> (key = ''s'' \<or> key = arrow (CHR ''b''))" "key = ''w'' \<or> key = arrow (CHR ''a'')"
    | (other) "\<not> (key = ''a'' \<or> key = arrow (CHR ''d''))" "\<not> (key = ''d'' \<or> key = arrow (CHR ''c''))"
        "\<not> (key = ''s'' \<or> key = arrow (CHR ''b''))" "\<not> (key = ''w'' \<or> key = arrow (CHR ''a''))"
    by blast
  then show ?thesis
  proof cases
    case left
    with assms(3,4) have "leaves (discardResult w (movePiece (- 1) 0 (this w))) w'"
      by (auto simp: handleGameInput_def)
    from discardResult_cases [OF this] mv assms(1) show ?thesis by auto
  next
    case right
    with assms(3,4) have "leaves (discardResult w (movePiece 1 0 (this w))) w'"
      by (auto simp: handleGameInput_def)
    from discardResult_cases [OF this] mv assms(1) show ?thesis by auto
  next
    case soft
    with assms(3,4) have "leaves (softDrop w) w'"
      by (auto simp: handleGameInput_def)
    from softDrop_inv [OF assms(1,2) this] show ?thesis .
  next
    case rot
    with assms(3,4) have "leaves (discardResult w (rotatePiece (this w))) w'"
      by (auto simp: handleGameInput_def)
    from discardResult_cases [OF this] rt assms(1) show ?thesis by auto
  next
    case other
    with assms(3) have rest: "(if key = '' '' then hardDrop w
      else if key = ''p'' then Some (Inr (setState PAUSED w))
      else if key = ''r'' then Some (restart w)
      else if key = ''h'' then Some (Inr (setState HIGH_SCORES w))
      else Some (Inr w)) = Some r"
      by (simp add: handleGameInput_def)
    show ?thesis
    proof (cases "key = '' ''")
      case True
      with rest have "hardDrop w = Some r" by simp
      from hardDrop_inv [OF assms(1,2) this assms(4)] show ?thesis .
    next
      case False
      note nospace = this
      show ?thesis
      proof (cases "key = ''p''")
        case True
        with rest nospace assms(4) have "w' = setState PAUSED w" by auto
        with assms(1,2) show ?thesis
          by (simp add: gameInv_setState gameInv_pieceOK)
      next
        case False
        note nop = this
        show ?thesis
        proof (cases "key = ''r''")
          case True
          with rest nospace nop assms(4) have "leaves (startGame w) w'"
            by (auto simp: restart_def)
          then show ?thesis by (rule startGame_inv)
        next
          case False
          with rest nospace nop assms(4) have "w' = setState HIGH_SCORES w \<or> w' = w"
            by (auto split: if_splits)
          with assms(1) show ?thesis
            by (auto simp: gameInv_setState_other)
        qed
      qed
    qed
  qed
qed

lemma onData_inv:
  assumes "gameInv (this w)" and "onData key w = Some r" and "leaves r w'"
  shows "gameInv (this w')"
proof (cases "key = ''q'' \<or> key = [CHR 0x03]")
  case True
  with assms show ?thesis by (auto simp: onData_def)
next
  case False
  note noquit = this
  show ?thesis
  proof (cases "state (this w)")
    case WELCOME
    with assms(2,3) noquit have "leaves (handleWelcomeInput key w) w'"
      by (auto simp: onData_def)
    then have "w' = setState HIGH_SCORES w \<or> w' = setState ACCOUNT_MENU w \<or> leaves (startGame w) w'"
      by (auto simp: handleWelcomeInput_def split: if_splits)
    with assms(1) show ?thesis
      by (auto simp: gameInv_setState_other startGame_inv)
  next
    case PLAYING
    with assms(2) noquit have "handleGameInput key w = Some r" by (simp add: onData_def)
    from handleGameInput_inv [OF assms(1) PLAYING this assms(3)] show ?thesis .
  next
    case PAUSED
    with assms(2,3) noquit have "w' = handlePausedInput key w" by (auto simp: onData_def)
    with assms(1) PAUSED show ?thesis
      by (auto simp: handlePausedInput_def gameInv_setState gameInv_pieceOK)
  next
    case GAME_OVER
    with assms(2,3) noquit have "leaves (handleGameOverInput key w) w'"
      by (auto simp: onData_def)
    then have "leaves (startGame w) w' \<or> w' = setState HIGH_SCORES w \<or> w' = setState WELCOME w"
      by (auto simp: handleGameOverInput_def restart_def split: if_splits)
    with assms(1) show ?thesis
      by (auto simp: gameInv_setState_other startGame_inv)
  next
    case HIGH_SCORES
    with assms(2,3) noquit have "w' = handleHighScoresInput key w" by (auto simp: onData_def)
    with assms(1) HIGH_SCORES show ?thesis
      by (simp add: handleHighScoresInput_def gameInv_setState_other)
  next
    case ACCOUNT_MENU
    with assms(2,3) noquit have "w' = handleAccountMenuInput key w" by (auto simp: onData_def)
    with assms(1) show ?thesis
      by (simp add: handleAccountMenuInput_def gameInv_setState_other)
  next
    case ACCOUNT_EXPORT
    with assms(2,3) noquit have "w' = handleAccountExportInput key w" by (auto simp: onData_def)
    with assms(1) show ?thesis
      by (simp add: handleAccountExportInput_def gameInv_setState_other)
  next
    case ACCOUNT_DELETE
    with assms(2,3) noquit have "w' = handleAccountDeleteInput key w" by (auto simp: onData_def)
    with assms(1) show ?thesis
      by (simp add: handleAccountDeleteInput_def gameInv_setState_other)
  qed
qed

lemma gameLoop_inv:
  assumes "gameInv (this w)" and "leaves (gameLoop w) w'"
  shows "gameInv (this w')"
proof (cases "state (this w) = PLAYING \<and> clock w - lastDrop (this w) > dropTime (this w)")
  case False
  with assms show ?thesis by (auto simp: gameLoop_def split: if_splits)
next
  case True
  then have pl: "state (this w) = PLAYING" by simp
  from movePiece_succeeds [OF assms(1) pl, of 0 1] obtain ok g
    where mv: "movePiece 0 1 (this w) = Inr (ok, g)" by blast
  from gameInv_movePiece [OF assms(1) pl mv] have g: "gameInv g" "state g = PLAYING" by simp_all
  show ?thesis
  proof (cases ok)
    case True
    with assms(2) mv \<open>state (this w) = PLAYING \<and> clock w - lastDrop (this w) > dropTime (this w)\<close>
    have "w' = w\<lparr>this := g\<lparr>lastDrop := clock w\<rparr>\<rparr>"
      by (simp add: gameLoop_def)
    with g(1) show ?thesis by (simp add: gameInv_lastDrop)
  next
    case False
    with assms(2) mv \<open>state (this w) = PLAYING \<and> clock w - lastDrop (this w) > dropTime (this w)\<close>
    obtain w1 where w1: "leaves (placePiece (w\<lparr>this := g\<rparr>)) w1"
      "w' = w1 \<or> w' = w1\<lparr>this := (this w1)\<lparr>lastDrop := clock w\<rparr>\<rparr>"
      by (auto simp: gameLoop_def leaves_def split: sum.splits)
    from placePiece_inv [OF _ _ w1(1)] g have "gameInv (this w1)" by simp
    with w1(2) show ?thesis by (auto simp: gameInv_lastDrop)
  qed
qed

lemma gameInv_new: "gameInv (this (TetrisGame p st rnd t isoDate))"
  by (simp add: TetrisGame_def gameInv_def statsOK_def boardOK_emptyBoard noFullRow_emptyBoard)

lemma reachable_gameInv: "reachable w \<Longrightarrow> gameInv (this w)"
proof (induction rule: reachable.induct)
  case (reachable_new p st rnd t isoDate)
  show ?case by (rule gameInv_new)
next
  case (reachable_key w key r w')
  then show ?case by (intro onData_inv [of w key r w']) simp_all
next
  case (reachable_tick w w')
  then show ?case by (intro gameLoop_inv [of w w']) simp_all
next
  case (reachable_env w st t isoDate)
  then show ?case by simp
qed

section \<open>Every event leaves a world\<close>

text \<open>Every shape of the catalogue has an occupied cell in its first row, so while playing
  the loop of \<open>hardDrop\<close> ends and the whole of \<open>hardDrop\<close> returns or throws.\<close>

lemma leaves_Inr_ex: "\<exists>w'. leaves (Inr w) w'"
  by (simp add: leaves_def)

lemma shapes_occupied:
  assumes "piece \<in> set (shapes t)"
  shows "0 < length piece \<and> (\<exists>px<length (piece ! 0). piece ! 0 ! px \<noteq> 0)"
  using assms by (cases t) (auto simp: Ex_less_Suc)

lemma hardDropLoop_returns:
  assumes "gameInv g" and "state g = PLAYING"
  shows "\<exists>n g'. hardDropLoop g 0 = Some (Inr (n, g'))"
proof -
  from assms have "pieceOK g" by (simp add: gameInv_def)
  then obtain t where t: "currentRotation g < length (shapes t)"
    "currentPiece g = Some (shapes t ! currentRotation g)"
    by (auto simp: pieceOK_def)
  let ?piece = "shapes t ! currentRotation g"
  from t(1) have "?piece \<in> set (shapes t)" by simp
  from shapes_occupied [OF this] obtain px where px: "0 < length ?piece"
    "px < length (?piece ! 0)" "?piece ! 0 ! px \<noteq> 0" by blast
  from hardDropLoop_terminates_aux [OF t(2) px refl, of 0]
  obtain r where r: "hardDropLoop g 0 = Some r" by blast
  show ?thesis
  proof (cases r)
    case (Inl e)
    with r hardDropLoop_no_error [OF _ assms] show ?thesis by blast
  next
    case (Inr p)
    with r show ?thesis by (cases p) simp
  qed
qed

lemma hardDrop_returns:
  assumes "gameInv (this w)" and "state (this w) = PLAYING"
  shows "\<exists>r w'. hardDrop w = Some r \<and> leaves r w'"
proof -
  from hardDropLoop_returns [OF assms] obtain n g
    where q: "hardDropLoop (this w) 0 = Some (Inr (n, g))" by blast
  from hardDropLoop_inv [OF q assms] have g: "gameInv g" "state g = PLAYING" by simp_all
  let ?w = "w\<lparr>this := g\<lparr>score := score g + n * 2\<rparr>\<rparr>"
  from g have "gameInv (this ?w)" "state (this ?w) = PLAYING" by (simp_all add: gameInv_score)
  from placePiece_leaves [OF this] q show ?thesis by (simp add: hardDrop_def)
qed

lemma softDrop_leaves:
  assumes "gameInv (this w)" and "state (this w) = PLAYING"
  shows "\<exists>w'. leaves (softDrop w) w'"
proof -
  from movePiece_succeeds [OF assms, of 0 1] obtain ok g
    where mv: "movePiece 0 1 (this w) = Inr (ok, g)" by blast
  from gameInv_movePiece [OF assms mv] have "gameInv (this (w\<lparr>this := g\<rparr>))"
    "state (this (w\<lparr>this := g\<rparr>)) = PLAYING" by simp_all
  from placePiece_leaves [OF this] mv show ?thesis by (simp add: softDrop_def)
qed

lemma discardResult_leaves:
  "r = Inr (ok, g) \<Longrightarrow> \<exists>w'. leaves (discardResult w r) w'"
  by (simp add: discardResult_def)

lemma startGame_leaves: "\<exists>w'. leaves (startGame w) w'"
  using startGame_result [of w] by auto

lemma handleGameInput_leaves:
  assumes "gameInv (this w)" and "state (this w) = PLAYING"
  shows "\<exists>r w'. handleGameInput key w = Some r \<and> leaves r w'"
proof -
  from movePiece_succeeds [OF assms] rotatePiece_succeeds [OF assms]
  have "\<exists>w'. leaves (discardResult w (movePiece (- 1) 0 (this w))) w'"
    "\<exists>w'. leaves (discardResult w (movePiece 1 0 (this w))) w'"
    "\<exists>w'. leaves (discardResult w (rotatePiece (this w))) w'"
    by (metis discardResult_leaves)+
  with softDrop_leaves [OF assms] hardDrop_returns [OF assms] startGame_leaves [of w]
  show ?thesis by (simp add: handleGameInput_def restart_def leaves_Inr_ex)
qed

lemma onData_leaves:
  assumes "gameInv (this w)"
  shows "\<exists>r w'. onData key w = Some r \<and> leaves r w'"
proof (cases "state (this w)")
  case PLAYING
  with handleGameInput_leaves [OF assms PLAYING, of key] show ?thesis
    by (simp add: onData_def leaves_Inr_ex)
qed (use startGame_leaves [of w] in
      \<open>simp_all add: onData_def handleWelcomeInput_def handleGameOverInput_def restart_def
         leaves_Inr_ex\<close>)

lemma gameLoop_leaves:
  assumes "gameInv (this w)"
  shows "\<exists>w'. leaves (gameLoop w) w'"
proof (cases "state (this w) = PLAYING")
  case False
  then show ?thesis by (simp add: gameLoop_def leaves_Inr_ex)
next
  case True
  from movePiece_succeeds [OF assms True, of 0 1] obtain ok g
    where mv: "movePiece 0 1 (this w) = Inr (ok, g)" by blast
  from gameInv_movePiece [OF assms True mv] have "gameInv (this (w\<lparr>this := g\<rparr>))"
    "state (this (w\<lparr>this := g\<rparr>)) = PLAYING" by simp_all
  from placePiece_leaves [OF this] obtain w1 where "leaves (placePiece (w\<lparr>this := g\<rparr>)) w1" ..
  then have "placePiece (w\<lparr>this := g\<rparr>) = Inr w1 \<or> placePiece (w\<lparr>this := g\<rparr>) = Inl (TypeError, w1)"
    by (simp add: leaves_def)
  with True mv show ?thesis by (auto simp: gameLoop_def)
qed

text \<open>
  No reachable world is stuck: every key and every run of the timer loop leaves a world,
  which is reachable again. The only error a handler ends with is the \<open>TypeError\<close> of the
  finalization.
\<close>

lemma reachable_progress:
  assumes "reachable w"
  shows "(\<exists>r w'. onData key w = Some r \<and> leaves r w' \<and> reachable w') \<and>
         (\<exists>w'. leaves (gameLoop w) w' \<and> reachable w')"
proof -
  from assms have inv: "gameInv (this w)" by (rule reachable_gameInv)
  from onData_leaves [OF inv, of key] obtain r w1
    where "onData key w = Some r" "leaves r w1" by blast
  moreover from this assms have "reachable w1" by (blast intro: reachable_key)
  moreover from gameLoop_leaves [OF inv] obtain w2 where "leaves (gameLoop w) w2" ..
  moreover from this assms have "reachable w2" by (blast intro: reachable_tick)
  ultimately show ?thesis by blast
qed

section \<open>Level, drop interval and board shape\<close>

lemma demoWorld_start: "onData ''x'' demoWorld = Some (Inr demoStarted)"
proof -
  have b: "boardOK (board (this (spawnNextPiece (demoWorld\<lparr>this := (this demoWorld)\<lparr>board := emptyBoard,
      score := 0, level := 1, lines := 0, dropTime := 1000, lastDrop := clock demoWorld\<rparr>\<rparr>))))"
    by (simp add: spawnNextPiece_def boardOK_emptyBoard)
  have nt: "nextType (this (spawnNextPiece (demoWorld\<lparr>this := (this demoWorld)\<lparr>board := emptyBoard,
      score := 0, level := 1, lines := 0, dropTime := 1000, lastDrop := clock demoWorld\<rparr>\<rparr>)))
      = Some PieceT"
    by (simp add: spawnNextPiece_def demoWorld_def TetrisGame_def)
  have nohit: "\<not> hits emptyBoard 3 0 [[0, Suc 0, 0], [Suc 0, Suc 0, Suc 0]]"
    using spawn_on_empty [of PieceT] by simp
  have best: "getPlayerBestScore (ident (demoPlayer 0)) (demoStore 3) = 1000"
    by code_simp
  have "startGame demoWorld = Inr demoStarted"
    using nohit best
    by (simp add: startGame_def Let_def spawnPiece_unfold [OF b nt] setState_def
        startGameLoop_def gameLoop_def)
       (simp add: spawnNextPiece_def demoWorld_def TetrisGame_def demoStarted_def)
  moreover have "state (this demoWorld) = WELCOME"
    by (simp add: demoWorld_def TetrisGame_def)
  ultimately show ?thesis
    by (simp add: onData_def handleWelcomeInput_def)
qed

lemma reachable_demoStarted: "reachable demoStarted"
  using reachable_new [of "demoPlayer 0" "demoStore 3" "sconst PieceT" 0 "''2024-01-01''"]
    demoWorld_start
  by (auto simp: demoWorld_def intro: reachable_key)

lemma demoStarted_playing: "state (this demoStarted) = PLAYING"
  by (simp add: demoStarted_def)

lemma demoStarted_known:
  "playerData (globals demoStarted) (ident (player (this demoStarted))) = Some demoInfo"
  by (simp add: demoStarted_def demoStore_def)

lemma demoClearing_game: "this demoClearing = clearingGame"
  by (simp add: demoClearing_def)

lemma fits_clearing: "fits 6 19 [[1,1,1,1]]"
  by (simp add: fits_def fitsRow_def All_less_Suc)

lemma gameInv_demoClearing: "gameInv (this demoClearing)"
proof -
  have "boardOK (board clearingGame) \<and> noFullRow (board clearingGame) \<and> statsOK clearingGame"
    by code_simp
  moreover have "pieceOK clearingGame"
    using fits_clearing by (simp add: pieceOK_def clearingGame_def)
  ultimately show ?thesis
    by (simp add: gameInv_def demoClearing_game)
qed

lemma demoClearing_playing: "state (this demoClearing) = PLAYING"
  by (simp add: demoClearing_def clearingGame_def)

lemma demoClearing_known:
  "playerData (globals demoClearing) (ident (player (this demoClearing))) = Some demoInfo"
  by (simp add: demoClearing_def demoStore_def)

lemma demoClearing_written: "writePiece (this demoClearing) = Inr completedBoard"
  unfolding demoClearing_game by code_simp

lemma completedBoard_full: "length (filter rowFull completedBoard) = 1"
  by code_simp

lemma completedBoard_cleared:
  "replicate (length (filter rowFull completedBoard)) emptyRow
     @ filter (\<lambda>r. \<not> rowFull r) completedBoard = emptyBoard"
  by code_simp

lemma demoClearing_stats:
  "lines (this demoClearing) = 9" "level (this demoClearing) = 1"
  "dropTime (this demoClearing) = 1000" "score (this demoClearing) = 940"
  by (simp_all add: demoClearing_def clearingGame_def)

text \<open>
  The sample game whose player object is gone. Each hard drop lands the piece on the
  stack; the tenth lock fills the board up to row 0, the spawn collides, and the
  finalization throws with the new piece already set.
\<close>

lemma hardDropLoop_lands:
  assumes "currentPiece g = Some piece"
    and "\<forall>j<n. checkRows (board g) (currentX g) (currentY g + int j + 1) piece = Inr False"
    and "checkRows (board g) (currentX g) (currentY g + int n + 1) piece = Inr True"
  shows "hardDropLoop g d = Some (Inr (d + int n, g\<lparr>currentY := currentY g + int n\<rparr>))"
  using assms
proof (induction n arbitrary: g d)
  case 0
  then have "movePiece 0 1 g = Inr (False, g)"
    by (simp add: movePiece_def checkCollision_def)
  then show ?case
    by (subst hardDropLoop.simps) simp
next
  case (Suc n)
  let ?g = "g\<lparr>currentY := currentY g + 1\<rparr>"
  from Suc.prems(2) have "checkRows (board g) (currentX g) (currentY g + 1) piece = Inr False"
    by (auto dest: spec [of _ 0])
  with Suc.prems(1) have mv: "movePiece 0 1 g = Inr (True, ?g)"
    by (simp add: movePiece_def checkCollision_def)
  have free: "\<forall>j<n. checkRows (board ?g) (currentX ?g) (currentY ?g + int j + 1) piece = Inr False"
  proof (intro allI impI)
    fix j assume "j < n"
    with Suc.prems(2) have "checkRows (board g) (currentX g) (currentY g + int (Suc j) + 1) piece = Inr False"
      by (auto dest: spec [of _ "Suc j"])
    then show "checkRows (board ?g) (currentX ?g) (currentY ?g + int j + 1) piece = Inr False"
      by (simp add: add.commute add.left_commute)
  qed
  from Suc.prems(3)
  have stop: "checkRows (board ?g) (currentX ?g) (currentY ?g + int n + 1) piece = Inr True"
    by (simp add: add.commute add.left_commute)
  from Suc.prems(1) have "currentPiece ?g = Some piece" by simp
  from Suc.IH [OF this free stop, of "d + 1"]
  have "hardDropLoop ?g (d + 1) = Some (Inr (d + int (Suc n), g\<lparr>currentY := currentY g + int (Suc n)\<rparr>))"
    by (simp add: add.commute add.left_commute)
  with mv show ?case
    by (subst hardDropLoop.simps) simp
qed

lemma tStack_free:
  "\<forall>k\<in>set [0..<10].
     (\<forall>j\<in>set [0..<18 - 2 * k]. checkRows (tStack k) 3 (int j + 1) [[0,1,0],[1,1,1]] = Inr False) \<and>
     checkRows (tStack k) 3 (int (18 - 2 * k) + 1) [[0,1,0],[1,1,1]] = Inr True"
  by code_simp

lemma tStack_written:
  "\<forall>k\<in>set [0..<10].
     placeRows (tStack k) (Tag PieceT) 3 (int (18 - 2 * k)) [[0,1,0],[1,1,1]] = Inr (tStack (Suc k))"
  by code_simp

lemma tStack_ok:
  "\<forall>k\<in>set [0..<11]. boardOK (tStack k) \<and> filter rowFull (tStack k) = [] \<and>
     filter (\<lambda>r. \<not> rowFull r) (tStack k) = tStack k"
  by code_simp

lemma tStack_spawn:
  "\<forall>k\<in>set [0..<10]. checkRows (tStack (Suc k)) 3 0 [[0,1,0],[1,1,1]] = Inr (k = 9)"
  by code_simp

lemma tStack_score:
  "\<forall>k\<in>set [0..<10]. 2 * int k * (19 - int k) + int (18 - 2 * k) * 2 = 2 * int (Suc k) * (19 - int (Suc k))"
  by code_simp


lemma orphanStack_lock:
  assumes "k < 10"
  shows "placePiece ((orphanStack k)\<lparr>this := (stackedGame k)\<lparr>currentY := int (18 - 2 * k),
             score := score (stackedGame k) + int (18 - 2 * k) * 2\<rparr>\<rparr>)
         = (if k = 9 then Inl (TypeError, orphanStack (Suc k)) else Inr (orphanStack (Suc k)))"
proof -
  let ?n = "int (18 - 2 * k)"
  let ?g1 = "(stackedGame k)\<lparr>currentY := ?n, score := score (stackedGame k) + ?n * 2\<rparr>"
  let ?b = "tStack (Suc k)"
  let ?w = "(orphanStack k)\<lparr>this := ?g1\<lparr>board := ?b\<rparr>\<rparr>"
  from assms have k: "k \<in> set [0..<10]" and k': "Suc k \<in> set [0..<11]" by simp_all
  from tStack_written k have wp: "writePiece ?g1 = Inr ?b"
    by (simp add: writePiece_def stackedGame_def)
  from tStack_ok k' have ok: "boardOK ?b" and nofull: "filter rowFull ?b = []"
    and keep: "filter (\<lambda>r. \<not> rowFull r) ?b = ?b" by blast+
  from ok have "length ?b = 20" by (simp add: boardOK_def)
  with nofull have "clearLines (?g1\<lparr>board := ?b\<rparr>) = Inr (cleared (?g1\<lparr>board := ?b\<rparr>))"
    by (intro clearLines_result) simp_all
  moreover from nofull keep have "cleared (?g1\<lparr>board := ?b\<rparr>) = ?g1\<lparr>board := ?b\<rparr>"
    by (simp add: cleared_def Let_def)
  ultimately have pp: "placePiece ((orphanStack k)\<lparr>this := ?g1\<rparr>) = spawnPiece ?w"
    using wp by (simp add: placePiece_def Let_def)
  have b: "boardOK (board (this ?w))" using ok by simp
  have nt: "nextType (this ?w) = Some PieceT" by (simp add: stackedGame_def)
  from tStack_spawn k checkRows_hits [OF ok, of 3 0 "[[0,1,0],[1,1,1]]"]
  have hit: "hits ?b 3 0 [[0,1,0],[1,1,1]] \<longleftrightarrow> k = 9" by simp
  have "playerData (globals ?w) (ident (player (this ?w))) = None"
    by (simp add: orphanStack_def)
  then have thrown: "updateHighScore (clockISO ?w) (player (this ?w)) (score (this ?w))
      (level (this ?w)) (lines (this ?w)) (globals ?w) = Inl TypeError"
    by (rule updateHighScore_fails)
  from tStack_score k
  have sc: "2 * int k * (19 - int k) + ?n * 2 = 2 * int (Suc k) * (19 - int (Suc k))" by blast
  define h where "h \<longleftrightarrow> hits ?b 3 0 [[0,1,0],[1,1,1]]"
  define w3 where "w3 = ?w\<lparr>this := (this ?w)\<lparr>currentType := Some PieceT,
                       nextType := Some (shd (random ?w)),
                       currentRotation := 0, currentPiece := Some (shapes PieceT ! 0),
                       currentX := (10 - int (length (shapes PieceT ! 0 ! 0))) div 2, currentY := 0\<rparr>,
               random := stl (random ?w)\<rparr>"
  from thrown have sp: "spawnPiece ?w = (if h then Inl (TypeError, w3) else Inr w3)"
    by (simp add: spawnPiece_unfold [OF b nt] Let_def h_def w3_def)
  from hit have h: "h \<longleftrightarrow> k = 9" by (simp add: h_def)
  from sc have w3: "w3 = orphanStack (Suc k)"
    by (simp add: w3_def orphanStack_def stackedGame_def)
  from sp have "spawnPiece ?w
      = (if k = 9 then Inl (TypeError, orphanStack (Suc k)) else Inr (orphanStack (Suc k)))"
    unfolding h w3 .
  with pp show ?thesis by simp
qed

lemma orphanStack_key:
  assumes "k < 10"
  shows "onData '' '' (orphanStack k)
         = Some (if k = 9 then Inl (TypeError, orphanStack (Suc k)) else Inr (orphanStack (Suc k)))"
proof -
  let ?g = "stackedGame k"
  from assms have k: "k \<in> set [0..<10]" by simp
  have piece: "currentPiece ?g = Some [[0,1,0],[1,1,1]]" by (simp add: stackedGame_def)
  from tStack_free k
  have "\<forall>j<18 - 2 * k. checkRows (board ?g) (currentX ?g) (currentY ?g + int j + 1)
            [[0,1,0],[1,1,1]] = Inr False"
    and "checkRows (board ?g) (currentX ?g) (currentY ?g + int (18 - 2 * k) + 1)
            [[0,1,0],[1,1,1]] = Inr True"
    by (simp_all add: stackedGame_def)
  from hardDropLoop_lands [OF piece this, of 0]
  have "hardDropLoop (this (orphanStack k)) 0
        = Some (Inr (int (18 - 2 * k), ?g\<lparr>currentY := int (18 - 2 * k)\<rparr>))"
    by (simp add: orphanStack_def stackedGame_def)
  then have "hardDrop (orphanStack k) = Some (placePiece ((orphanStack k)\<lparr>this :=
      ?g\<lparr>currentY := int (18 - 2 * k), score := score ?g + int (18 - 2 * k) * 2\<rparr>\<rparr>))"
    by (simp add: hardDrop_def)
  with orphanStack_lock [OF assms]
  have "hardDrop (orphanStack k)
         = Some (if k = 9 then Inl (TypeError, orphanStack (Suc k)) else Inr (orphanStack (Suc k)))"
    by simp
  moreover have "state (this (orphanStack k)) = PLAYING"
    by (simp add: orphanStack_def stackedGame_def)
  ultimately show ?thesis
    by (simp add: onData_def handleGameInput_def arrow_def)
qed

lemma orphanStack_start:
  "orphanStack 0 = demoStarted\<lparr>globals := \<lparr>highScores = [], playerData = Map.empty\<rparr>,
                                clock := 0, clockISO := ''2024-01-01''\<rparr>"
proof -
  have "tStack 0 = emptyBoard" by code_simp
  then show ?thesis by (simp add: orphanStack_def stackedGame_def demoStarted_def)
qed

lemma reachable_orphanStack: "k \<le> 10 \<Longrightarrow> reachable (orphanStack k)"
proof (induction k)
  case 0
  show ?case
    unfolding orphanStack_start by (rule reachable_env [OF reachable_demoStarted])
next
  case (Suc k)
  then have r: "reachable (orphanStack k)" and k: "k < 10" by simp_all
  from orphanStack_key [OF k]
  have "\<exists>r. onData '' '' (orphanStack k) = Some r \<and> leaves r (orphanStack (Suc k))"
    by (simp add: leaves_def)
  with r show ?case by (blast intro: reachable_key)
qed

lemma orphanStack_playing: "state (this (orphanStack k)) = PLAYING"
  by (simp add: orphanStack_def stackedGame_def)

lemma orphanStack_thrown: "placePiece (orphanStack 9) = Inl (TypeError, orphanStack 10)"
proof -
  have "(orphanStack 9)\<lparr>this := (stackedGame 9)\<lparr>currentY := int (18 - 2 * 9),
             score := score (stackedGame 9) + int (18 - 2 * 9) * 2\<rparr>\<rparr> = orphanStack 9"
    by (simp add: orphanStack_def stackedGame_def)
  with orphanStack_lock [of 9] show ?thesis by simp
qed

lemma orphanStack_key_thrown:
  "onData '' '' (orphanStack 9) = Some (Inl (TypeError, orphanStack 10))"
  using orphanStack_key [of 9] by simp

lemma orphanStack_overlap:
  "hits (board (this (orphanStack 10))) (currentX (this (orphanStack 10)))
     (currentY (this (orphanStack 10))) [[0,1,0],[1,1,1]]"
proof -
  have ok: "boardOK (tStack 10)" by code_simp
  have "checkRows (tStack 10) 3 0 [[0,1,0],[1,1,1]] = Inr True" by code_simp
  then have "hits (tStack 10) 3 0 [[0,1,0],[1,1,1]]"
    by (simp only: checkRows_hits [OF ok] sum.inject)
  then show ?thesis
    by (simp add: orphanStack_def stackedGame_def)
qed

lemma orphanStack_written:
  "writePiece (this (orphanStack 9)) = Inr (tStack 10)"
  "length (filter rowFull (tStack 10)) = 0"
proof -
  have "writePiece (stackedGame 9) = Inr (tStack 10)" by code_simp
  then show "writePiece (this (orphanStack 9)) = Inr (tStack 10)"
    by (simp add: orphanStack_def)
  show "length (filter rowFull (tStack 10)) = 0" by code_simp
qed

text \<open>
  Claim C7. In every reachable world, the worlds left by a handler that threw included,
  \<open>level = floor(lines / 10) + 1\<close>. A call of \<open>placePiece\<close> made while playing, in a
  reachable world or in any world that satisfies the invariant, writes the piece, leaves a
  world behind (it returns, or throws in the finalization of a lost game), and in that
  world the number of lines has grown by the number of full rows of the written board
  and \<open>level = floor(lines / 10) + 1\<close> holds, whether rows were cleared or not. The call
  returns whenever the player object exists in \<open>playerData\<close>.
\<close>

theorem level_after_lock:
  "(reachable w \<longrightarrow> 0 \<le> lines (this w) \<and> level (this w) = lines (this w) div 10 + 1) \<and>
   ((reachable w \<or> gameInv (this w)) \<and> state (this w) = PLAYING \<longrightarrow>
      (\<exists>b. writePiece (this w) = Inr b \<and>
           (\<exists>w'. leaves (placePiece w) w') \<and>
           (\<forall>w'. leaves (placePiece w) w' \<longrightarrow>
              lines (this w') = lines (this w) + int (length (filter rowFull b)) \<and>
              level (this w') = lines (this w') div 10 + 1)) \<and>
      (\<forall>info. playerData (globals w) (ident (player (this w))) = Some info \<longrightarrow>
         (\<exists>w'. placePiece w = Inr w')))"
proof (rule conjI; rule impI)
  assume "reachable w"
  then have "gameInv (this w)" by (rule reachable_gameInv)
  then show "0 \<le> lines (this w) \<and> level (this w) = lines (this w) div 10 + 1"
    by (simp add: gameInv_def statsOK_def)
next
  assume a: "(reachable w \<or> gameInv (this w)) \<and> state (this w) = PLAYING"
  then have inv: "gameInv (this w)" and pl: "state (this w) = PLAYING"
    using reachable_gameInv by auto
  from placePiece_unfold [OF inv pl] obtain b where b: "writePiece (this w) = Inr b" by blast
  have "lines (this w') = lines (this w) + int (length (filter rowFull b)) \<and>
        level (this w') = lines (this w') div 10 + 1"
    if "leaves (placePiece w) w'" for w'
    using placePiece_inv [OF inv pl that] b by (auto simp: gameInv_def statsOK_def)
  with b placePiece_leaves [OF inv pl]
  have "\<exists>b. writePiece (this w) = Inr b \<and>
           (\<exists>w'. leaves (placePiece w) w') \<and>
           (\<forall>w'. leaves (placePiece w) w' \<longrightarrow>
              lines (this w') = lines (this w) + int (length (filter rowFull b)) \<and>
              level (this w') = lines (this w') div 10 + 1)"
    by (intro exI [of _ b]) simp
  moreover have "\<forall>info. playerData (globals w) (ident (player (this w))) = Some info \<longrightarrow>
         (\<exists>w'. placePiece w = Inr w')"
    using placePiece_succeeds [OF inv pl] by blast
  ultimately show "(\<exists>b. writePiece (this w) = Inr b \<and>
           (\<exists>w'. leaves (placePiece w) w') \<and>
           (\<forall>w'. leaves (placePiece w) w' \<longrightarrow>
              lines (this w') = lines (this w) + int (length (filter rowFull b)) \<and>
              level (this w') = lines (this w') div 10 + 1)) \<and>
      (\<forall>info. playerData (globals w) (ident (player (this w))) = Some info \<longrightarrow>
         (\<exists>w'. placePiece w = Inr w'))"
    by (rule conjI)
qed

theorem level_after_lock_witness:
  "reachable demoStarted \<and>
   level (this demoStarted) = lines (this demoStarted) div 10 + 1 \<and>
   gameInv (this demoClearing) \<and> state (this demoClearing) = PLAYING \<and>
   playerData (globals demoClearing) (ident (player (this demoClearing))) = Some demoInfo \<and>
   lines (this demoClearing) = 9 \<and> level (this demoClearing) = 1 \<and>
   writePiece (this demoClearing) = Inr completedBoard \<and>
   (\<exists>w'. placePiece demoClearing = Inr w' \<and> lines (this w') = 10 \<and> level (this w') = 2) \<and>
   reachable (orphanStack 9) \<and> state (this (orphanStack 9)) = PLAYING \<and>
   onData '' '' (orphanStack 9) = Some (Inl (TypeError, orphanStack 10)) \<and>
   placePiece (orphanStack 9) = Inl (TypeError, orphanStack 10) \<and>
   lines (this (orphanStack 10)) = lines (this (orphanStack 9)) \<and>
   reachable (orphanStack 10) \<and>
   level (this (orphanStack 10)) = lines (this (orphanStack 10)) div 10 + 1"
proof -
  from level_after_lock [of demoStarted] reachable_demoStarted
  have s: "level (this demoStarted) = lines (this demoStarted) div 10 + 1" by blast
  note c = level_after_lock [of demoClearing]
  from c gameInv_demoClearing demoClearing_playing demoClearing_known
  obtain w1 where w1: "placePiece demoClearing = Inr w1" by blast
  then have l1: "leaves (placePiece demoClearing) w1" by simp
  from c gameInv_demoClearing demoClearing_playing
  obtain b where b: "writePiece (this demoClearing) = Inr b"
    "\<forall>w'. leaves (placePiece demoClearing) w' \<longrightarrow>
        lines (this w') = lines (this demoClearing) + int (length (filter rowFull b)) \<and>
        level (this w') = lines (this w') div 10 + 1"
    by blast
  from b(1) demoClearing_written have "b = completedBoard" by simp
  with b(2) l1 have "lines (this w1) = 10 \<and> level (this w1) = 2"
    by (simp add: completedBoard_full demoClearing_stats)
  with w1 have cw: "\<exists>w'. placePiece demoClearing = Inr w' \<and> lines (this w') = 10 \<and> level (this w') = 2"
    by blast
  have r9: "reachable (orphanStack 9)" and r10: "reachable (orphanStack 10)"
    by (simp_all add: reachable_orphanStack)
  have l2: "leaves (placePiece (orphanStack 9)) (orphanStack 10)"
    by (simp add: orphanStack_thrown)
  note orphanStack_written
  moreover from level_after_lock [of "orphanStack 9"] r9 orphanStack_playing [of 9]
  obtain b2 where "writePiece (this (orphanStack 9)) = Inr b2"
    "\<forall>w'. leaves (placePiece (orphanStack 9)) w' \<longrightarrow>
        lines (this w') = lines (this (orphanStack 9)) + int (length (filter rowFull b2)) \<and>
        level (this w') = lines (this w') div 10 + 1"
    by blast
  ultimately have ol: "lines (this (orphanStack 10)) = lines (this (orphanStack 9))"
    using l2 by auto
  from level_after_lock [of "orphanStack 10"] r10
  have tl: "level (this (orphanStack 10)) = lines (this (orphanStack 10)) div 10 + 1" by blast
  from reachable_demoStarted s gameInv_demoClearing demoClearing_playing demoClearing_known
    demoClearing_stats(1,2) demoClearing_written cw r9 orphanStack_playing [of 9]
    orphanStack_key_thrown orphanStack_thrown ol r10 tl
  show ?thesis by (intro conjI)
qed

text \<open>
  Claim C8. In every reachable world, the worlds left by a handler that threw included,
  \<open>dropTime = max(100, 1000 - (level - 1) * 100)\<close>, which lies between 100 and 1000. A
  call of \<open>placePiece\<close> made while playing, in a reachable world or in any world that
  satisfies the invariant, leaves a world in which the level is the one computed from the
  old number of lines and the full rows of the written board, the drop interval is the
  one computed from that level, the level has not decreased and the drop interval has not
  increased.
\<close>

theorem dropTime_after_lock:
  "(reachable w \<longrightarrow>
      dropTime (this w) = max 100 (1000 - (level (this w) - 1) * 100) \<and>
      100 \<le> dropTime (this w) \<and> dropTime (this w) \<le> 1000 \<and> 1 \<le> level (this w)) \<and>
   ((reachable w \<or> gameInv (this w)) \<and> state (this w) = PLAYING \<longrightarrow>
      (\<exists>b. writePiece (this w) = Inr b \<and>
           (\<exists>w'. leaves (placePiece w) w') \<and>
           (\<forall>w'. leaves (placePiece w) w' \<longrightarrow>
              level (this w') = (lines (this w) + int (length (filter rowFull b))) div 10 + 1 \<and>
              dropTime (this w') = max 100 (1000 - (level (this w') - 1) * 100) \<and>
              100 \<le> dropTime (this w') \<and> dropTime (this w') \<le> 1000 \<and>
              level (this w) \<le> level (this w') \<and> dropTime (this w') \<le> dropTime (this w))) \<and>
      (\<forall>info. playerData (globals w) (ident (player (this w))) = Some info \<longrightarrow>
         (\<exists>w'. placePiece w = Inr w')))"
proof (rule conjI; rule impI)
  have range: "dropTime g = max 100 (1000 - (level g - 1) * 100) \<and>
      100 \<le> dropTime g \<and> dropTime g \<le> 1000 \<and> 1 \<le> level g" if "statsOK g" for g
  proof -
    from that have "0 \<le> lines g div 10"
      by (simp add: statsOK_def pos_imp_zdiv_nonneg_iff)
    with that have "1 \<le> level g" by (simp add: statsOK_def)
    with that show ?thesis by (simp add: statsOK_def)
  qed
  show "dropTime (this w) = max 100 (1000 - (level (this w) - 1) * 100) \<and>
      100 \<le> dropTime (this w) \<and> dropTime (this w) \<le> 1000 \<and> 1 \<le> level (this w)"
    if "reachable w"
  proof -
    from that have "gameInv (this w)" by (rule reachable_gameInv)
    then have "statsOK (this w)" by (simp add: gameInv_def)
    from range [OF this] show ?thesis .
  qed
  assume a: "(reachable w \<or> gameInv (this w)) \<and> state (this w) = PLAYING"
  then have inv: "gameInv (this w)" and pl: "state (this w) = PLAYING"
    using reachable_gameInv by auto
  from placePiece_unfold [OF inv pl] obtain b where b: "writePiece (this w) = Inr b" by blast
  have "\<forall>w'. leaves (placePiece w) w' \<longrightarrow>
        level (this w') = (lines (this w) + int (length (filter rowFull b))) div 10 + 1 \<and>
        dropTime (this w') = max 100 (1000 - (level (this w') - 1) * 100) \<and>
        100 \<le> dropTime (this w') \<and> dropTime (this w') \<le> 1000 \<and>
        level (this w) \<le> level (this w') \<and> dropTime (this w') \<le> dropTime (this w)"
  proof (intro allI impI)
    fix w' assume that: "leaves (placePiece w) w'"
    note p = placePiece_inv [OF inv pl that]
    from p have s: "statsOK (this w')" by (simp add: gameInv_def)
    from p b have "lines (this w') = lines (this w) + int (length (filter rowFull b))" by auto
    with s have "level (this w') = (lines (this w) + int (length (filter rowFull b))) div 10 + 1"
      by (simp add: statsOK_def)
    with range [OF s] p
    show "level (this w') = (lines (this w) + int (length (filter rowFull b))) div 10 + 1 \<and>
        dropTime (this w') = max 100 (1000 - (level (this w') - 1) * 100) \<and>
        100 \<le> dropTime (this w') \<and> dropTime (this w') \<le> 1000 \<and>
        level (this w) \<le> level (this w') \<and> dropTime (this w') \<le> dropTime (this w)"
      by simp
  qed
  with b placePiece_leaves [OF inv pl]
  have "\<exists>b. writePiece (this w) = Inr b \<and>
           (\<exists>w'. leaves (placePiece w) w') \<and>
           (\<forall>w'. leaves (placePiece w) w' \<longrightarrow>
              level (this w') = (lines (this w) + int (length (filter rowFull b))) div 10 + 1 \<and>
              dropTime (this w') = max 100 (1000 - (level (this w') - 1) * 100) \<and>
              100 \<le> dropTime (this w') \<and> dropTime (this w') \<le> 1000 \<and>
              level (this w) \<le> level (this w') \<and> dropTime (this w') \<le> dropTime (this w))"
    by (intro exI [of _ b] conjI)
  moreover have "\<forall>info. playerData (globals w) (ident (player (this w))) = Some info \<longrightarrow>
         (\<exists>w'. placePiece w = Inr w')"
    using placePiece_succeeds [OF inv pl] by blast
  ultimately show "(\<exists>b. writePiece (this w) = Inr b \<and>
           (\<exists>w'. leaves (placePiece w) w') \<and>
           (\<forall>w'. leaves (placePiece w) w' \<longrightarrow>
              level (this w') = (lines (this w) + int (length (filter rowFull b))) div 10 + 1 \<and>
              dropTime (this w') = max 100 (1000 - (level (this w') - 1) * 100) \<and>
              100 \<le> dropTime (this w') \<and> dropTime (this w') \<le> 1000 \<and>
              level (this w) \<le> level (this w') \<and> dropTime (this w') \<le> dropTime (this w))) \<and>
      (\<forall>info. playerData (globals w) (ident (player (this w))) = Some info \<longrightarrow>
         (\<exists>w'. placePiece w = Inr w'))"
    by (rule conjI)
qed

theorem dropTime_after_lock_witness:
  "reachable demoStarted \<and>
   dropTime (this demoStarted) = max 100 (1000 - (level (this demoStarted) - 1) * 100) \<and>
   gameInv (this demoClearing) \<and> state (this demoClearing) = PLAYING \<and>
   playerData (globals demoClearing) (ident (player (this demoClearing))) = Some demoInfo \<and>
   level (this demoClearing) = 1 \<and> dropTime (this demoClearing) = 1000 \<and>
   writePiece (this demoClearing) = Inr completedBoard \<and>
   (\<exists>w'. placePiece demoClearing = Inr w' \<and> level (this w') = 2 \<and> dropTime (this w') = 900) \<and>
   onData '' '' (orphanStack 9) = Some (Inl (TypeError, orphanStack 10)) \<and>
   reachable (orphanStack 10) \<and>
   dropTime (this (orphanStack 10)) = max 100 (1000 - (level (this (orphanStack 10)) - 1) * 100)"
proof -
  from dropTime_after_lock [of demoStarted] reachable_demoStarted
  have s: "dropTime (this demoStarted) = max 100 (1000 - (level (this demoStarted) - 1) * 100)"
    by blast
  note c = dropTime_after_lock [of demoClearing]
  from c gameInv_demoClearing demoClearing_playing demoClearing_known
  obtain w1 where w1: "placePiece demoClearing = Inr w1" by blast
  then have l1: "leaves (placePiece demoClearing) w1" by simp
  from c gameInv_demoClearing demoClearing_playing
  obtain b where b: "writePiece (this demoClearing) = Inr b"
    "\<forall>w'. leaves (placePiece demoClearing) w' \<longrightarrow>
        level (this w') = (lines (this demoClearing) + int (length (filter rowFull b))) div 10 + 1 \<and>
        dropTime (this w') = max 100 (1000 - (level (this w') - 1) * 100) \<and>
        100 \<le> dropTime (this w') \<and> dropTime (this w') \<le> 1000 \<and>
        level (this demoClearing) \<le> level (this w') \<and>
        dropTime (this w') \<le> dropTime (this demoClearing)"
    by blast
  from b(1) demoClearing_written have "b = completedBoard" by simp
  with b(2) l1 have "level (this w1) = 2 \<and> dropTime (this w1) = 900"
    by (simp add: completedBoard_full demoClearing_stats)
  with w1 have cw: "\<exists>w'. placePiece demoClearing = Inr w' \<and> level (this w') = 2 \<and>
      dropTime (this w') = 900"
    by blast
  have r10: "reachable (orphanStack 10)"
    by (simp add: reachable_orphanStack)
  with dropTime_after_lock [of "orphanStack 10"]
  have td: "dropTime (this (orphanStack 10))
      = max 100 (1000 - (level (this (orphanStack 10)) - 1) * 100)" by blast
  from reachable_demoStarted s gameInv_demoClearing demoClearing_playing demoClearing_known
    demoClearing_stats(2,3) demoClearing_written cw orphanStack_key_thrown r10 td
  show ?thesis by (intro conjI)
qed

text \<open>
  Claim C9. In every reachable world, the worlds left by a handler that threw included,
  the board has exactly 20 rows of exactly 10 cells, each \<open>null\<close> or the key of one of the
  seven pieces. \<open>startGame\<close> (and so \<open>restart\<close>) returns with the empty board of that
  shape. A call of \<open>placePiece\<close> made while playing, in a reachable world or in any world
  that satisfies the invariant, writes the piece into a board of that shape, \<open>clearLines\<close>
  turns it into the board without its full rows and with as many empty rows on top, again
  of that shape, and that is the board of the world the call leaves. On every board of
  that shape the loop of \<open>clearLines\<close> returns a board of that shape, however many rows are
  full.
\<close>

theorem board_shape:
  "(reachable w \<longrightarrow>
      length (board (this w)) = 20 \<and>
      (\<forall>row\<in>set (board (this w)).
          length row = 10 \<and> (\<forall>c\<in>set row. c = Null \<or> (\<exists>t. c = Tag t)))) \<and>
   (\<exists>w'. startGame w = Inr w' \<and> restart w = Inr w' \<and> board (this w') = emptyBoard \<and>
         boardOK (board (this w'))) \<and>
   ((reachable w \<or> gameInv (this w)) \<and> state (this w) = PLAYING \<longrightarrow>
      (\<exists>b g'. writePiece (this w) = Inr b \<and> boardOK b \<and>
          clearLines ((this w)\<lparr>board := b\<rparr>) = Inr g' \<and>
          board g' = replicate (length (filter rowFull b)) emptyRow
                       @ filter (\<lambda>r. \<not> rowFull r) b \<and>
          boardOK (board g') \<and>
          (\<exists>w'. leaves (placePiece w) w') \<and>
          (\<forall>w'. leaves (placePiece w) w' \<longrightarrow> board (this w') = board g'))) \<and>
   (\<forall>b. boardOK b \<longrightarrow> (\<exists>b' n. clearLoop 20 b 0 = Inr (b', n) \<and> boardOK b'))"
proof (intro conjI impI allI)
  assume "reachable w"
  then have "gameInv (this w)" by (rule reachable_gameInv)
  then have ok: "boardOK (board (this w))" by (simp add: gameInv_def)
  from ok show "length (board (this w)) = 20" by (simp add: boardOK_def)
next
  assume "reachable w"
  then have "gameInv (this w)" by (rule reachable_gameInv)
  then have ok: "boardOK (board (this w))" by (simp add: gameInv_def)
  have cells: "c = Null \<or> (\<exists>t. c = Tag t)" if "c \<noteq> Undefined" for c
    using that by (cases c) simp_all
  from ok show "\<forall>row\<in>set (board (this w)).
          length row = 10 \<and> (\<forall>c\<in>set row. c = Null \<or> (\<exists>t. c = Tag t))"
    using cells by (auto simp: boardOK_def)
next
  from startGame_result [of w] show "\<exists>w'. startGame w = Inr w' \<and> restart w = Inr w' \<and>
      board (this w') = emptyBoard \<and> boardOK (board (this w'))"
    by (auto simp: restart_def boardOK_emptyBoard)
next
  assume a: "(reachable w \<or> gameInv (this w)) \<and> state (this w) = PLAYING"
  then have inv: "gameInv (this w)" and pl: "state (this w) = PLAYING"
    using reachable_gameInv by auto
  from placePiece_unfold [OF inv pl] obtain b where b: "writePiece (this w) = Inr b" "boardOK b"
    "clearLines ((this w)\<lparr>board := b\<rparr>) = Inr (cleared ((this w)\<lparr>board := b\<rparr>))"
    by blast
  let ?g' = "cleared ((this w)\<lparr>board := b\<rparr>)"
  have cb: "board ?g' = replicate (length (filter rowFull b)) emptyRow
                       @ filter (\<lambda>r. \<not> rowFull r) b"
    by (simp add: cleared_board)
  have ok: "boardOK (board ?g')"
    using b(2) by (simp add: cleared_board boardOK_cleared)
  have same: "board (this w') = board ?g'" if "leaves (placePiece w) w'" for w'
    using placePiece_inv [OF inv pl that] b(1) by auto
  from b cb ok same placePiece_leaves [OF inv pl]
  show "\<exists>b g'. writePiece (this w) = Inr b \<and> boardOK b \<and>
          clearLines ((this w)\<lparr>board := b\<rparr>) = Inr g' \<and>
          board g' = replicate (length (filter rowFull b)) emptyRow
                       @ filter (\<lambda>r. \<not> rowFull r) b \<and>
          boardOK (board g') \<and>
          (\<exists>w'. leaves (placePiece w) w') \<and>
          (\<forall>w'. leaves (placePiece w) w' \<longrightarrow> board (this w') = board g')"
    by (intro exI [of _ b] exI [of _ ?g']) simp
next
  fix b assume ok: "boardOK b"
  then have "length b = 20" by (simp add: boardOK_def)
  from clearLoop_20 [OF this] boardOK_cleared [OF ok]
  show "\<exists>b' n. clearLoop 20 b 0 = Inr (b', n) \<and> boardOK b'" by simp
qed

theorem board_shape_witness:
  "reachable demoStarted \<and> length (board (this demoStarted)) = 20 \<and>
   gameInv (this demoClearing) \<and> state (this demoClearing) = PLAYING \<and>
   playerData (globals demoClearing) (ident (player (this demoClearing))) = Some demoInfo \<and>
   board (this demoClearing) = nearlyFullBoard \<and>
   writePiece (this demoClearing) = Inr completedBoard \<and>
   (\<exists>g'. clearLines ((this demoClearing)\<lparr>board := completedBoard\<rparr>) = Inr g' \<and>
         board g' = emptyBoard \<and> boardOK (board g')) \<and>
   (\<exists>w'. placePiece demoClearing = Inr w' \<and> board (this w') = emptyBoard \<and>
         boardOK (board (this w'))) \<and>
   boardOK stackedBoard \<and>
   (\<exists>b' n. clearLoop 20 stackedBoard 0 = Inr (b', n) \<and> boardOK b') \<and>
   reachable (orphanStack 9) \<and> state (this (orphanStack 9)) = PLAYING \<and>
   onData '' '' (orphanStack 9) = Some (Inl (TypeError, orphanStack 10)) \<and>
   placePiece (orphanStack 9) = Inl (TypeError, orphanStack 10) \<and>
   boardOK (board (this (orphanStack 10))) \<and>
   reachable (orphanStack 10) \<and> state (this (orphanStack 10)) = PLAYING \<and>
   hits (board (this (orphanStack 10))) (currentX (this (orphanStack 10)))
     (currentY (this (orphanStack 10))) [[0,1,0],[1,1,1]] \<and>
   length (board (this (orphanStack 10))) = 20"
proof -
  from board_shape [of demoStarted] reachable_demoStarted
  have s: "length (board (this demoStarted)) = 20" by blast
  note c = board_shape [of demoClearing]
  from placePiece_succeeds [OF gameInv_demoClearing demoClearing_playing demoClearing_known]
  obtain w1 where w1: "placePiece demoClearing = Inr w1" by blast
  then have l1: "leaves (placePiece demoClearing) w1" by simp
  from c gameInv_demoClearing demoClearing_playing
  obtain b g' where b: "writePiece (this demoClearing) = Inr b"
    "clearLines ((this demoClearing)\<lparr>board := b\<rparr>) = Inr g'"
    "board g' = replicate (length (filter rowFull b)) emptyRow @ filter (\<lambda>r. \<not> rowFull r) b"
    "boardOK (board g')"
    "\<forall>w'. leaves (placePiece demoClearing) w' \<longrightarrow> board (this w') = board g'"
    by blast
  from b(1) demoClearing_written have bc: "b = completedBoard" by simp
  with b(3) have eb: "board g' = emptyBoard" by (simp add: completedBoard_cleared)
  from b(2,4) bc eb
  have cg: "\<exists>g'. clearLines ((this demoClearing)\<lparr>board := completedBoard\<rparr>) = Inr g' \<and>
         board g' = emptyBoard \<and> boardOK (board g')" by blast
  from b(5) l1 have "board (this w1) = board g'" by blast
  with eb b(4) w1
  have cw: "\<exists>w'. placePiece demoClearing = Inr w' \<and> board (this w') = emptyBoard \<and>
         boardOK (board (this w'))" by simp
  have nb: "board (this demoClearing) = nearlyFullBoard"
    by (simp add: demoClearing_def clearingGame_def)
  have sb: "boardOK stackedBoard" by code_simp
  with board_shape [of demoStarted]
  have sl: "\<exists>b' n. clearLoop 20 stackedBoard 0 = Inr (b', n) \<and> boardOK b'" by blast
  have r9: "reachable (orphanStack 9)" and r10: "reachable (orphanStack 10)"
    by (simp_all add: reachable_orphanStack)
  have l2: "leaves (placePiece (orphanStack 9)) (orphanStack 10)"
    by (simp add: orphanStack_thrown)
  from conjunct1 [OF conjunct2 [OF conjunct2 [OF board_shape [of "orphanStack 9"]]]]
    r9 orphanStack_playing [of 9]
  obtain g2 :: game where "boardOK (board g2)"
    "\<forall>w'. leaves (placePiece (orphanStack 9)) w' \<longrightarrow> board (this w') = board g2"
    by blast
  with l2 have ob: "boardOK (board (this (orphanStack 10)))" by simp
  from conjunct1 [OF board_shape [of "orphanStack 10"]] r10
  have tb: "length (board (this (orphanStack 10))) = 20"
    by blast
  from reachable_demoStarted s gameInv_demoClearing demoClearing_playing demoClearing_known
    nb demoClearing_written cg cw sb sl r9 orphanStack_playing [of 9]
    orphanStack_key_thrown orphanStack_thrown ob r10 orphanStack_playing [of 10]
    orphanStack_overlap tb
  show ?thesis by (intro conjI)
qed

theorem hardDropLoop_terminates_witness:
  "currentPiece (this demoStarted) = Some [[0,1,0],[1,1,1]] \<and>
   (0::nat) < length [[0,1,0],[1,1,1::nat]] \<and> (1::nat) < length ([[0,1,0],[1,1,1::nat]] ! 0) \<and>
   [[0,1,0],[1,1,1::nat]] ! 0 ! 1 \<noteq> 0 \<and>
   (\<exists>r. hardDropLoop (this demoStarted) 0 = Some r \<and>
      (\<forall>n g'. r = Inr (n, g') \<longrightarrow>
          0 \<le> n \<and> n - 0 \<le> max 0 (19 - (currentY (this demoStarted) + int 0)) \<and>
          currentY g' = currentY (this demoStarted) + (n - 0)))"
proof -
  have h1: "currentPiece (this demoStarted) = Some [[0,1,0],[1,1,1]]"
    by (simp add: demoStarted_def)
  have h2: "(0::nat) < length [[0,1,0],[1,1,1::nat]]" by simp
  have h3: "(1::nat) < length ([[0,1,0],[1,1,1::nat]] ! 0)" by simp
  have h4: "[[0,1,0],[1,1,1::nat]] ! 0 ! 1 \<noteq> 0" by simp
  from hardDropLoop_terminates [OF h1 h2 h3 h4, of 0] h1 h2 h3 h4
  show ?thesis by (intro conjI)
qed

section \<open>Soft drop, gravity and the leaderboard screen\<close>

lemma movePiece_True_fields:
  "movePiece dx dy g = Inr (True, g') \<Longrightarrow>
   g' = g\<lparr>currentX := currentX g + dx, currentY := currentY g + dy\<rparr>"
  by (auto simp: movePiece_def split: sum.splits if_splits)

lemma movePiece_False_same: "movePiece dx dy g = Inr (False, g') \<Longrightarrow> g' = g"
  by (auto simp: movePiece_def split: sum.splits if_splits)

text \<open>
  Claim C3, as the code has it. The key \<open>s\<close> and the timer loop both try to move the
  piece down one row and both call \<open>placePiece\<close> when the move fails. When the move
  succeeds, the key adds exactly 1 to the score and the timer loop leaves the score as it
  is; there is no operation shared by the two paths.
\<close>

theorem gravity_and_softDrop:
  "handleGameInput ''s'' w = Some (softDrop w) \<and>
   (\<forall>g. movePiece 0 1 (this w) = Inr (True, g) \<longrightarrow>
        score g = score (this w) \<and>
        softDrop w = Inr (w\<lparr>this := g\<lparr>score := score (this w) + 1\<rparr>\<rparr>) \<and>
        (state (this w) = PLAYING \<and> dropTime (this w) < clock w - lastDrop (this w) \<longrightarrow>
           gameLoop w = Inr (w\<lparr>this := g\<lparr>lastDrop := clock w\<rparr>\<rparr>))) \<and>
   (\<forall>g. movePiece 0 1 (this w) = Inr (False, g) \<longrightarrow>
        softDrop w = placePiece w \<and>
        (state (this w) = PLAYING \<and> dropTime (this w) < clock w - lastDrop (this w) \<longrightarrow>
           gameLoop w = (case placePiece w of
                           Inl e \<Rightarrow> Inl e
                         | Inr w' \<Rightarrow> Inr (w'\<lparr>this := (this w')\<lparr>lastDrop := clock w\<rparr>\<rparr>))))"
proof (intro conjI allI impI)
  show "handleGameInput ''s'' w = Some (softDrop w)"
    by (simp add: handleGameInput_def arrow_def)
next
  fix g assume mv: "movePiece 0 1 (this w) = Inr (True, g)"
  from movePiece_True_fields [OF mv] show sc: "score g = score (this w)" by simp
  from mv sc show "softDrop w = Inr (w\<lparr>this := g\<lparr>score := score (this w) + 1\<rparr>\<rparr>)"
    by (simp add: softDrop_def)
  assume "state (this w) = PLAYING \<and> dropTime (this w) < clock w - lastDrop (this w)"
  with mv show "gameLoop w = Inr (w\<lparr>this := g\<lparr>lastDrop := clock w\<rparr>\<rparr>)"
    by (simp add: gameLoop_def)
next
  fix g assume mv: "movePiece 0 1 (this w) = Inr (False, g)"
  from movePiece_False_same [OF mv] have g: "g = this w" .
  from mv g show "softDrop w = placePiece w"
    by (simp add: softDrop_def)
  assume "state (this w) = PLAYING \<and> dropTime (this w) < clock w - lastDrop (this w)"
  with mv g show "gameLoop w = (case placePiece w of
                           Inl e \<Rightarrow> Inl e
                         | Inr w' \<Rightarrow> Inr (w'\<lparr>this := (this w')\<lparr>lastDrop := clock w\<rparr>\<rparr>))"
    by (simp add: gameLoop_def)
qed

lemma demoDue_move:
  "movePiece 0 1 (this demoDue) = Inr (True, (this demoDue)\<lparr>currentX := 3, currentY := 1\<rparr>)"
  by (simp add: movePiece_def checkCollision_def demoDue_def demoStarted_def cellAt_emptyBoard)

lemma demoLanded_move:
  "movePiece 0 1 (this demoLanded) = Inr (False, this demoLanded)"
  by (simp add: movePiece_def checkCollision_def demoLanded_def demoDue_def demoStarted_def
      cellAt_emptyBoard)

lemma demoDue_due:
  "state (this demoDue) = PLAYING \<and> dropTime (this demoDue) < clock demoDue - lastDrop (this demoDue)"
  by (simp add: demoDue_def demoStarted_def)

lemma demoLanded_due:
  "state (this demoLanded) = PLAYING \<and>
   dropTime (this demoLanded) < clock demoLanded - lastDrop (this demoLanded)"
  by (simp add: demoLanded_def demoDue_def demoStarted_def)

theorem gravity_and_softDrop_witness:
  "movePiece 0 1 (this demoDue) = Inr (True, (this demoDue)\<lparr>currentX := 3, currentY := 1\<rparr>) \<and>
   (state (this demoDue) = PLAYING \<and> dropTime (this demoDue) < clock demoDue - lastDrop (this demoDue)) \<and>
   softDrop demoDue
     = Inr (demoDue\<lparr>this := (this demoDue)\<lparr>currentX := 3, currentY := 1,
                                             score := score (this demoDue) + 1\<rparr>\<rparr>) \<and>
   gameLoop demoDue
     = Inr (demoDue\<lparr>this := (this demoDue)\<lparr>currentX := 3, currentY := 1,
                                             lastDrop := clock demoDue\<rparr>\<rparr>) \<and>
   movePiece 0 1 (this demoLanded) = Inr (False, this demoLanded) \<and>
   (state (this demoLanded) = PLAYING \<and>
    dropTime (this demoLanded) < clock demoLanded - lastDrop (this demoLanded)) \<and>
   softDrop demoLanded = placePiece demoLanded \<and>
   gameLoop demoLanded
     = (case placePiece demoLanded of
          Inl e \<Rightarrow> Inl e
        | Inr w' \<Rightarrow> Inr (w'\<lparr>this := (this w')\<lparr>lastDrop := clock demoLanded\<rparr>\<rparr>))"
proof -
  note a = gravity_and_softDrop [of demoDue]
  note b = gravity_and_softDrop [of demoLanded]
  from a demoDue_move demoDue_due
  have a1: "softDrop demoDue
     = Inr (demoDue\<lparr>this := (this demoDue)\<lparr>currentX := 3, currentY := 1,
                                             score := score (this demoDue) + 1\<rparr>\<rparr>)"
    and a2: "gameLoop demoDue
     = Inr (demoDue\<lparr>this := (this demoDue)\<lparr>currentX := 3, currentY := 1,
                                             lastDrop := clock demoDue\<rparr>\<rparr>)"
    by blast+
  from b demoLanded_move demoLanded_due
  have b1: "softDrop demoLanded = placePiece demoLanded"
    and b2: "gameLoop demoLanded
     = (case placePiece demoLanded of
          Inl e \<Rightarrow> Inl e
        | Inr w' \<Rightarrow> Inr (w'\<lparr>this := (this w')\<lparr>lastDrop := clock demoLanded\<rparr>\<rparr>))"
    by blast+
  from demoDue_due have d1: "state (this demoDue) = PLAYING"
    and d2: "dropTime (this demoDue) < clock demoDue - lastDrop (this demoDue)" by simp_all
  from demoLanded_due have l1: "state (this demoLanded) = PLAYING"
    and l2: "dropTime (this demoLanded) < clock demoLanded - lastDrop (this demoLanded)"
    by simp_all
  from demoDue_move d1 d2 a1 a2 demoLanded_move l1 l2 b1 b2
  show ?thesis by (intro conjI)
qed

text \<open>
  The gravity path as claim C3 states it fails: with the piece at row 0 of an empty
  board, one run of the timer loop moves it to row 1 and the score stays 0, while the key
  \<open>s\<close> moves it to row 1 and makes the score 1.
\<close>

theorem gravity_score_counterexample:
  "state (this demoDue) = PLAYING \<and>
   dropTime (this demoDue) < clock demoDue - lastDrop (this demoDue) \<and>
   scoreAndRow (Inr demoDue) = Inr (0, 0) \<and>
   scoreAndRow (gameLoop demoDue) = Inr (0, 1) \<and>
   scoreAndRow (softDrop demoDue) = Inr (1, 1) \<and>
   handleGameInput ''s'' demoDue = Some (softDrop demoDue)"
proof -
  have "scoreAndRow (Inr demoDue) = Inr (0, 0)"
    by (simp add: scoreAndRow_def demoDue_def demoStarted_def)
  moreover have "scoreAndRow (gameLoop demoDue) = Inr (0, 1)"
    using demoDue_due
    by (simp add: gameLoop_def demoDue_move scoreAndRow_def)
       (simp add: demoDue_def demoStarted_def)
  moreover have "scoreAndRow (softDrop demoDue) = Inr (1, 1)"
    by (simp add: softDrop_def demoDue_move scoreAndRow_def)
       (simp add: demoDue_def demoStarted_def)
  moreover have "handleGameInput ''s'' demoDue = Some (softDrop demoDue)"
    by (simp add: handleGameInput_def arrow_def)
  ultimately show ?thesis using demoDue_due by (intro conjI) simp_all
qed

text \<open>
  Claim C2 at a concrete session: a first key starts a game, \<open>h\<close> shows the leaderboard
  while the game is active, and the next key leads to \<open>WELCOME\<close>, not back to
  \<open>PLAYING\<close>: when \<open>handleHighScoresInput\<close> reads \<open>this.state\<close> it is \<open>HIGH_SCORES\<close>.
\<close>

theorem leaderboard_key_goes_to_welcome:
  "screenAfter [''x''] demoWorld = Some (Inr PLAYING) \<and>
   screenAfter [''x'', ''h''] demoWorld = Some (Inr HIGH_SCORES) \<and>
   screenAfter [''x'', ''h'', ''x''] demoWorld = Some (Inr WELCOME) \<and>
   onDataAll [''x'', ''h'', ''x''] demoWorld = Some (Inr (setState WELCOME demoStarted))"
proof -
  have h: "onData ''h'' demoStarted = Some (Inr (setState HIGH_SCORES demoStarted))"
    by (simp add: onData_def handleGameInput_def arrow_def demoStarted_playing)
  have x: "onData ''x'' (setState HIGH_SCORES demoStarted) = Some (Inr (setState WELCOME demoStarted))"
    by (simp add: onData_def handleHighScoresInput_def setState_def)
  show ?thesis
    by (simp add: screenAfter_def demoWorld_start h x)
       (simp add: setState_def demoStarted_def)
qed

end
